theory Spec2Isabelle
  imports Main "HOL-Library.Word"
begin

section \<open>Course Module Loader: the extraction engine of \<^verbatim>\<open>src/main.ts\<close>\<close>

text \<open>
  The development embeds \<^verbatim>\<open>CourseMaterialPlugin.ensureFolderExists\<close> and
  \<^verbatim>\<open>CourseMaterialPlugin.downloadAndUnzip\<close> of \<^verbatim>\<open>src/main.ts\<close>. JavaScript strings
  are \<^typ>\<open>string\<close> (one \<^typ>\<open>char\<close> per code unit; every delimiter the code looks at
  is ASCII), an \<^verbatim>\<open>ArrayBuffer\<close> is a list of bytes, the vault is an explicit store
  threaded through every call, and everything the code shows to the user or sends to the
  host (notices, console lines, vault and network calls) is appended to a trace.
\<close>

subsection \<open>JavaScript string operations used by the plugin\<close>

type_synonym bytes = "8 word list"

abbreviation slash :: char where
  "slash \<equiv> CHR ''/''"

abbreviation backslash :: char where
  "backslash \<equiv> CHR 0x5C"

abbreviation quote :: char where
  "quote \<equiv> CHR 0x27"

abbreviation dquote :: char where
  "dquote \<equiv> CHR 0x22"

text \<open>\<^verbatim>\<open>s.startsWith(p)\<close> and \<^verbatim>\<open>s.endsWith(p)\<close>.\<close>

definition startsWith :: "string \<Rightarrow> string \<Rightarrow> bool" where
  "startsWith s p = (take (length p) s = p)"

definition endsWith :: "string \<Rightarrow> string \<Rightarrow> bool" where
  "endsWith s p = (length p \<le> length s \<and> drop (length s - length p) s = p)"

text \<open>\<^verbatim>\<open>s.includes(p)\<close>: \<open>p\<close> occurs at some position of \<open>s\<close>.\<close>

fun includes_str :: "string \<Rightarrow> string \<Rightarrow> bool" where
  "includes_str [] p = (p = [])"
| "includes_str (c # cs) p = (startsWith (c # cs) p \<or> includes_str cs p)"

text \<open>
  \<^verbatim>\<open>s.replace(p, r)\<close> with a string pattern: only the first occurrence is replaced
  (the replacement used by the plugin holds no \<^verbatim>\<open>$\<close> pattern).
\<close>

fun replace_first :: "string \<Rightarrow> string \<Rightarrow> string \<Rightarrow> string" where
  "replace_first [] p r = (if p = [] then r else [])"
| "replace_first (c # cs) p r =
     (if startsWith (c # cs) p then r @ drop (length p) (c # cs)
      else c # replace_first cs p r)"

text \<open>\<^verbatim>\<open>s.split('/')\<close>: never empty, \<^verbatim>\<open>''.split('/')\<close> is \<^verbatim>\<open>['']\<close>.\<close>

fun split :: "string \<Rightarrow> char \<Rightarrow> string list" where
  "split [] sep = [[]]"
| "split (c # cs) sep =
     (if c = sep then [] # split cs sep
      else (case split cs sep of
              [] \<Rightarrow> [[c]]
            | segment # segments \<Rightarrow> (c # segment) # segments))"

text \<open>\<^verbatim>\<open>s.replace(/\\/g, '/')\<close>: every backslash becomes a slash.\<close>

definition replace_backslashes :: "string \<Rightarrow> string" where
  "replace_backslashes s = map (\<lambda>c. if c = backslash then slash else c) s"

text \<open>\<^verbatim>\<open>s.replace(/\/+/g, '/')\<close>: every run of slashes becomes one slash.\<close>

fun collapse_slashes :: "string \<Rightarrow> string" where
  "collapse_slashes (a # b # cs) =
     (if a = slash \<and> b = slash then collapse_slashes (b # cs)
      else a # collapse_slashes (b # cs))"
| "collapse_slashes cs = cs"

text \<open>
  \<^verbatim>\<open>s.replace(/^\/|\/$/g, '')\<close>: one leading slash and one trailing slash are removed
  (a lone \<^verbatim>\<open>/\<close> is consumed by the first alternative).
\<close>

definition strip_slashes :: "string \<Rightarrow> string" where
  "strip_slashes s =
     (let s1 = (if startsWith s [slash] then drop 1 s else s)
      in if endsWith s1 [slash] then butlast s1 else s1)"

text \<open>\<^verbatim>\<open>s.lastIndexOf('/')\<close>: the index of the last occurrence, \<open>-1\<close> when there is none.\<close>

fun lastIndexOf_from :: "string \<Rightarrow> char \<Rightarrow> int \<Rightarrow> int \<Rightarrow> int" where
  "lastIndexOf_from [] c i found = found"
| "lastIndexOf_from (x # xs) c i found =
     lastIndexOf_from xs c (i + 1) (if x = c then i else found)"

definition lastIndexOf :: "string \<Rightarrow> char \<Rightarrow> int" where
  "lastIndexOf s c = lastIndexOf_from s c 0 (- 1)"

text \<open>
  \<^verbatim>\<open>s.toLowerCase()\<close> on the ASCII letters. The plugin only searches the result for
  the ASCII phrase \<^verbatim>\<open>file already exists\<close>, and no character outside ASCII lowers to
  a letter of that phrase.
\<close>

definition lower_char :: "char \<Rightarrow> char" where
  "lower_char c =
     (if (65::nat) \<le> of_char c \<and> of_char c \<le> (90::nat) then char_of (of_char c + (32::nat)) else c)"

definition toLowerCase :: "string \<Rightarrow> string" where
  "toLowerCase s = map lower_char s"

text \<open>A number inside a template string: its decimal digits.\<close>

fun digits_of :: "nat \<Rightarrow> string" where
  "digits_of n =
     (if n < 10 then [char_of (48 + n)]
      else digits_of (n div 10) @ [char_of (48 + n mod 10)])"

declare digits_of.simps [simp del]

subsection \<open>Errors, archive entries, the vault and the trace\<close>

text \<open>
  A thrown JavaScript error; the plugin reads only its \<^verbatim>\<open>message\<close>, which may be
  undefined (the code guards it with \<^verbatim>\<open>?.\<close>).
\<close>

datatype js_error = Error (message: "string option")

text \<open>\<^verbatim>\<open>${error.message}\<close> inside a template string.\<close>

definition message_text :: "js_error \<Rightarrow> string" where
  "message_text e = (case message e of None \<Rightarrow> ''undefined'' | Some m \<Rightarrow> m)"

text \<open>\<^verbatim>\<open>error.message?.toLowerCase().includes("file already exists")\<close>.\<close>

definition says_file_exists :: "js_error \<Rightarrow> bool" where
  "says_file_exists e =
     (case message e of None \<Rightarrow> False
      | Some m \<Rightarrow> includes_str (toLowerCase m) ''file already exists'')"

text \<open>
  One value of \<^verbatim>\<open>zip.files\<close>: its key, JSZip's \<^verbatim>\<open>dir\<close> flag and what
  \<^verbatim>\<open>zipEntry.async('arraybuffer')\<close> gives (the bytes, or a thrown error). The archive
  is the list of these values in the order in which \<^verbatim>\<open>for (... in zip.files)\<close> visits
  the keys.
\<close>

record zip_object =
  name :: string
  dir :: bool
  async_arraybuffer :: "js_error + bytes"

text \<open>What \<^verbatim>\<open>getAbstractFileByPath\<close> can find at a path.\<close>

datatype node = TFile bytes | TFolder

datatype event =
    Notice string
  | ConsoleLog string
  | ConsoleWarn string
  | ConsoleError string "js_error list"
  | RequestUrl string
  | LoadAsync bytes
  | GetAbstractFileByPath string
  | CreateFolder string
  | CreateBinary string bytes

record world =
  tree :: "string \<rightharpoonup> node"
  trace :: "event list"

definition emit :: "world \<Rightarrow> event list \<Rightarrow> world" where
  "emit w evs = w\<lparr>trace := trace w @ evs\<rparr>"

subsection \<open>The host: Obsidian's vault, the network and the archive decoder\<close>

text \<open>
  How a \<^verbatim>\<open>createFolder\<close> call on a free path ends: the folder is created; the call
  throws and nothing is there; or the call throws although the folder is there afterwards
  (the creation race of the specification).
\<close>

datatype folder_outcome = FolderCreated | FolderFailed js_error | FolderRaced js_error

text \<open>
  The behaviour of the collaborators the plugin calls, a parameter of every
  definition below: what the fetch returns for a URL, what the decoder returns for a byte
  buffer, how creating a folder at a free path ends, and with which error (if any) creating
  a file at a free path fails.
\<close>

record host =
  requestUrl_result :: "string \<Rightarrow> js_error + bytes"
  loadAsync_result :: "bytes \<Rightarrow> js_error + zip_object list"
  createFolder_outcome :: "string \<Rightarrow> folder_outcome"
  createBinary_failure :: "string \<Rightarrow> js_error option"

text \<open>
  Modelled from the spec: \<^verbatim>\<open>app.vault.getAbstractFileByPath\<close> belongs to the Obsidian
  API, which is not in the repository. Section 9 of the specification describes it as the
  query \<^verbatim>\<open>statPath(path) -> Absent | IsFile | IsDirectory\<close>; it is a lookup of the
  exact path string in the vault's index and changes nothing.
\<close>

definition getAbstractFileByPath :: "world \<Rightarrow> string \<Rightarrow> node option \<times> world" where
  "getAbstractFileByPath w p = (tree w p, emit w [GetAbstractFileByPath p])"

text \<open>
  Modelled from the spec: \<^verbatim>\<open>app.vault.createFolder\<close> belongs to the Obsidian API,
  which is not in the repository. Per section 4.3 of the specification a creation either
  succeeds, fails, or fails in a race that leaves the directory in place; it touches no
  path but its own, and an occupied path is refused.
\<close>

definition createFolder :: "host \<Rightarrow> world \<Rightarrow> string \<Rightarrow> (js_error + unit) \<times> world" where
  "createFolder h w p =
     (let w1 = emit w [CreateFolder p] in
      if tree w p \<noteq> None then (Inl (Error (Some ''Folder already exists.'')), w1)
      else case createFolder_outcome h p of
          FolderCreated \<Rightarrow> (Inr (), w1\<lparr>tree := (tree w1)(p \<mapsto> TFolder)\<rparr>)
        | FolderFailed e \<Rightarrow> (Inl e, w1)
        | FolderRaced e \<Rightarrow> (Inl e, w1\<lparr>tree := (tree w1)(p \<mapsto> TFolder)\<rparr>))"

text \<open>
  Modelled from the spec: \<^verbatim>\<open>app.vault.createBinary\<close> belongs to the Obsidian API,
  which is not in the repository. Per section 4.4 of the specification a creation either
  stores the data at a free path or fails, possibly with an error saying that the
  destination exists; it never replaces what is there. The modification time passed by the
  plugin (\<^verbatim>\<open>Date.now()\<close>) is not part of the store.
\<close>

definition createBinary :: "host \<Rightarrow> world \<Rightarrow> string \<Rightarrow> bytes \<Rightarrow> (js_error + unit) \<times> world" where
  "createBinary h w p fileData =
     (let w1 = emit w [CreateBinary p fileData] in
      if tree w p \<noteq> None then (Inl (Error (Some ''File already exists.'')), w1)
      else case createBinary_failure h p of
          None \<Rightarrow> (Inr (), w1\<lparr>tree := (tree w1)(p \<mapsto> TFile fileData)\<rparr>)
        | Some e \<Rightarrow> (Inl e, w1))"

subsection \<open>\<^verbatim>\<open>ensureFolderExists\<close> (main.ts, lines 249-296)\<close>

text \<open>
  The result is the \<^verbatim>\<open>path\<close> of the returned \<^verbatim>\<open>TFolder\<close> (the root's is
  \<^verbatim>\<open>/\<close>), or \<open>None\<close> for \<^verbatim>\<open>null\<close>. The outer \<^verbatim>\<open>catch\<close> of the source guards
  the first lookup, which does not throw in this model of the vault.
\<close>

definition ensureFolderExists :: "host \<Rightarrow> world \<Rightarrow> string \<Rightarrow> string option \<times> world" where
  "ensureFolderExists h w path =
     (if path = ''/'' \<or> path = '''' then (Some ''/'', w)
      else
        let normalizedPath = strip_slashes path in
        if normalizedPath = '''' then (Some ''/'', w)
        else
          case getAbstractFileByPath w normalizedPath of
            (Some TFolder, w1) \<Rightarrow> (Some normalizedPath, w1)
          | (Some (TFile _), w1) \<Rightarrow>
              (None, emit w1
                 [ConsoleError (''Cannot create folder '' @ [quote] @ normalizedPath @ [quote]
                                @ '', a file with this name already exists.'') [],
                  Notice (''Cannot create folder '' @ [quote] @ normalizedPath @ [quote]
                          @ '', a file exists there.'')])
          | (None, w1) \<Rightarrow>
              (case createFolder h
                      (emit w1 [ConsoleLog (''Attempting to create folder: '' @ normalizedPath)])
                      normalizedPath of
                 (Inr _, w2) \<Rightarrow>
                   (Some normalizedPath, emit w2 [Notice (''Created folder: '' @ normalizedPath)])
               | (Inl creationError, w2) \<Rightarrow>
                   (case getAbstractFileByPath
                           (emit w2 [ConsoleError (''Error creating folder '' @ [quote]
                                       @ normalizedPath @ [quote] @ '':'') [creationError]])
                           normalizedPath of
                      (Some TFolder, w3) \<Rightarrow>
                        (Some normalizedPath,
                         emit w3 [ConsoleLog (''Folder '' @ [quote] @ normalizedPath @ [quote]
                                    @ '' found after initial creation attempt failed.'')])
                    | (_, w3) \<Rightarrow>
                        (None,
                         emit w3 [Notice (''Error creating folder '' @ [quote] @ normalizedPath
                                    @ [quote] @ ''. Check console.'')]))))"

subsection \<open>\<^verbatim>\<open>downloadAndUnzip\<close>: one archive entry (main.ts, lines 352-443)\<close>

text \<open>
  The variables of the loop: the world, \<^verbatim>\<open>fileCount\<close> and the set
  \<^verbatim>\<open>folderPathsCreated\<close>.
\<close>

record loop_state =
  env :: world
  fileCount :: nat
  folderPathsCreated :: "string set"

text \<open>Lines 354-355: the entries that are skipped before anything else happens.\<close>

definition is_metadata :: "string \<Rightarrow> bool" where
  "is_metadata relativePath =
     (let fileName = last (split relativePath slash)
      in startsWith relativePath ''__MACOSX/'' \<or> fileName = ''.DS_Store'' \<or> relativePath = '''')"

text \<open>Lines 356-357: the two console lines of a skipped entry.\<close>

definition metadata_log :: "string \<Rightarrow> event list" where
  "metadata_log relativePath =
     (if startsWith relativePath ''__MACOSX/''
      then [ConsoleLog (''Ignoring macOS metadata folder: '' @ relativePath)] else [])
     @ (if last (split relativePath slash) = ''.DS_Store''
        then [ConsoleLog (''Ignoring .DS_Store file: '' @ relativePath)] else [])"

text \<open>Lines 364-365: \<^verbatim>\<open>fullDestPath\<close> and \<^verbatim>\<open>normalizedDestPath\<close>.\<close>

definition normalizedDestPath_of :: "string \<Rightarrow> string \<Rightarrow> string" where
  "normalizedDestPath_of cleanTargetFolderPath relativePath =
     (let fullDestPath =
            (if cleanTargetFolderPath \<noteq> '''' then cleanTargetFolderPath @ ''/'' @ relativePath
             else relativePath)
      in collapse_slashes (replace_backslashes fullDestPath))"

text \<open>Line 370: \<^verbatim>\<open>dirPath\<close>.\<close>

definition dirPath_of :: "string \<Rightarrow> string" where
  "dirPath_of normalizedDestPath =
     (if endsWith normalizedDestPath ''/'' then butlast normalizedDestPath
      else normalizedDestPath)"

text \<open>Lines 384-385: \<^verbatim>\<open>parentPath\<close>.\<close>

definition parentPath_of :: "string \<Rightarrow> string" where
  "parentPath_of normalizedDestPath =
     (let lastSlashIndex = lastIndexOf normalizedDestPath slash
      in if lastSlashIndex > 0 then take (nat lastSlashIndex) normalizedDestPath
         else if lastSlashIndex = 0 then ''/'' else '''')"

text \<open>Line 402: \<^verbatim>\<open>pathToCheck\<close>.\<close>

definition pathToCheck_of :: "string \<Rightarrow> string" where
  "pathToCheck_of normalizedDestPath =
     (if startsWith normalizedDestPath ''/'' then drop 1 normalizedDestPath
      else normalizedDestPath)"

text \<open>Lines 368-379: a directory entry.\<close>

definition handle_directory :: "host \<Rightarrow> loop_state \<Rightarrow> string \<Rightarrow> loop_state" where
  "handle_directory h st normalizedDestPath =
     (let dirPath = dirPath_of normalizedDestPath in
      if dirPath \<noteq> '''' \<and> dirPath \<notin> folderPathsCreated st then
        (case ensureFolderExists h (env st) dirPath of
           (None, w1) \<Rightarrow>
             st\<lparr>env := emit w1 [ConsoleWarn (''Could not ensure directory exists: '' @ dirPath
                                   @ ''. Skipping contents.'')]\<rparr>
         | (Some _, w1) \<Rightarrow>
             st\<lparr>env := w1, folderPathsCreated := insert dirPath (folderPathsCreated st)\<rparr>)
      else st)"

text \<open>
  Lines 388-397: the parent directory of a file entry. The first component is \<open>False\<close>
  when the source leaves the iteration with \<^verbatim>\<open>continue\<close>.
\<close>

definition ensure_parent :: "host \<Rightarrow> string \<Rightarrow> loop_state \<Rightarrow> string \<Rightarrow> bool \<times> loop_state" where
  "ensure_parent h cleanTargetFolderPath st normalizedDestPath =
     (let parentPath = parentPath_of normalizedDestPath in
      if parentPath \<noteq> '''' \<and> parentPath \<noteq> cleanTargetFolderPath
         \<and> parentPath \<notin> folderPathsCreated st then
        (case ensureFolderExists h (env st) parentPath of
           (None, w1) \<Rightarrow>
             (False,
              st\<lparr>env := emit w1 [ConsoleWarn (''Could not ensure parent directory exists: ''
                                    @ parentPath @ ''. Skipping file: '' @ normalizedDestPath)]\<rparr>)
         | (Some _, w1) \<Rightarrow>
             (True, st\<lparr>env := w1, folderPathsCreated := insert parentPath (folderPathsCreated st)\<rparr>))
      else (True, st))"

text \<open>Lines 399-441: the conflict policy and the write.\<close>

definition write_file :: "host \<Rightarrow> loop_state \<Rightarrow> string \<Rightarrow> bytes \<Rightarrow> loop_state" where
  "write_file h st normalizedDestPath fileData =
     (let pathToCheck = pathToCheck_of normalizedDestPath in
      if pathToCheck = '''' \<and> normalizedDestPath = ''/'' then
        st\<lparr>env := emit (env st)
                     [ConsoleWarn (''Attempting to check root path '' @ [quote] @ ''/'' @ [quote]
                                   @ '' for a file. Skipping.'')]\<rparr>
      else
        case (if pathToCheck \<noteq> '''' then getAbstractFileByPath (env st) pathToCheck
              else (None, env st)) of
          (Some (TFile _), w1) \<Rightarrow>
            st\<lparr>env := emit w1 [ConsoleLog (''Skipping extraction for existing file: ''
                                  @ normalizedDestPath)]\<rparr>
        | (Some TFolder, w1) \<Rightarrow>
            st\<lparr>env := emit w1
                         [ConsoleError (''Skipping file write: A folder exists at path ''
                                        @ normalizedDestPath) [],
                          Notice (''Skipping file write: Folder exists at ''
                                  @ normalizedDestPath)]\<rparr>
        | (None, w1) \<Rightarrow>
            (case createBinary h
                    (emit w1 [ConsoleLog (''Creating new file: '' @ normalizedDestPath)])
                    normalizedDestPath fileData of
               (Inr _, w2) \<Rightarrow> st\<lparr>env := w2, fileCount := fileCount st + 1\<rparr>
             | (Inl writeError, w2) \<Rightarrow>
                 (if says_file_exists writeError then
                    st\<lparr>env := emit w2
                                 [ConsoleWarn (''Caught '' @ [quote] @ ''File already exists''
                                    @ [quote] @ '' on createBinary for '' @ normalizedDestPath
                                    @ ''. Skipping.'')]\<rparr>
                  else
                    st\<lparr>env := emit w2
                                 [ConsoleError (''Error creating file '' @ [quote]
                                    @ normalizedDestPath @ [quote] @ '':'') [writeError],
                                  Notice (''Error creating file '' @ [quote] @ normalizedDestPath
                                          @ [quote] @ ''. Check console.'')]\<rparr>)))"

text \<open>
  Lines 381-442: a file entry. Reading the entry's data (line 382) is not inside any
  \<^verbatim>\<open>try\<close> of the loop: when it throws, the error leaves the loop.
\<close>

definition handle_file ::
  "host \<Rightarrow> string \<Rightarrow> loop_state \<Rightarrow> string \<Rightarrow> js_error + bytes \<Rightarrow> js_error option \<times> loop_state" where
  "handle_file h cleanTargetFolderPath st normalizedDestPath content =
     (case content of
        Inl thrown \<Rightarrow> (Some thrown, st)
      | Inr fileData \<Rightarrow>
          (case ensure_parent h cleanTargetFolderPath st normalizedDestPath of
             (False, st1) \<Rightarrow> (None, st1)
           | (True, st1) \<Rightarrow> (None, write_file h st1 normalizedDestPath fileData)))"

text \<open>
  The body of the loop for one entry. The first component is the error that leaves the
  loop, if any.
\<close>

definition process_entry ::
  "host \<Rightarrow> string \<Rightarrow> loop_state \<Rightarrow> zip_object \<Rightarrow> js_error option \<times> loop_state" where
  "process_entry h cleanTargetFolderPath st zipEntry =
     (let relativePath = name zipEntry in
      if is_metadata relativePath then
        (None, st\<lparr>env := emit (env st) (metadata_log relativePath)\<rparr>)
      else
        let normalizedDestPath = normalizedDestPath_of cleanTargetFolderPath relativePath in
        if dir zipEntry then (None, handle_directory h st normalizedDestPath)
        else handle_file h cleanTargetFolderPath st normalizedDestPath
               (async_arraybuffer zipEntry))"

text \<open>The loop of line 352: it stops at the first error that leaves an iteration.\<close>

fun process_entries ::
  "host \<Rightarrow> string \<Rightarrow> loop_state \<Rightarrow> zip_object list \<Rightarrow> js_error option \<times> loop_state" where
  "process_entries h cleanTargetFolderPath st [] = (None, st)"
| "process_entries h cleanTargetFolderPath st (zipEntry # files) =
     (case process_entry h cleanTargetFolderPath st zipEntry of
        (Some thrown, st1) \<Rightarrow> (Some thrown, st1)
      | (None, st1) \<Rightarrow> process_entries h cleanTargetFolderPath st1 files)"

subsection \<open>\<^verbatim>\<open>downloadAndUnzip\<close>: the stages (main.ts, lines 308-458)\<close>

text \<open>Lines 448-457: the \<^verbatim>\<open>catch\<close> around decoding and the loop.\<close>

definition catch_unzip_error :: "world \<Rightarrow> js_error \<Rightarrow> world" where
  "catch_unzip_error w thrown =
     (let w1 = emit w [ConsoleError ''Unzip/Write Error:'' [thrown]] in
      if says_file_exists thrown then
        emit w1
          [ConsoleWarn (''Caught '' @ [quote] @ ''File already exists'' @ [quote]
             @ '' error during unzip/write phase, possibly handled. Check logic if files were missed.''),
           Notice (''An unexpected '' @ [quote] @ ''File already exists'' @ [quote]
             @ '' error occurred during processing. Some files might not have been processed correctly. Check console.'')]
      else
        emit w1 [Notice (''Failed to unzip or write files: '' @ message_text thrown
                         @ ''. Check console.'')])"

text \<open>
  Lines 346-457: decoding and extraction. \<open>targetFolder_path\<close> is
  \<^verbatim>\<open>targetFolder.path\<close>.
\<close>

definition unzip_and_write :: "host \<Rightarrow> world \<Rightarrow> string \<Rightarrow> string \<Rightarrow> bytes \<Rightarrow> world" where
  "unzip_and_write h w targetFolder_path cleanTargetFolderPath zipData =
     (case loadAsync_result h zipData of
        Inl thrown \<Rightarrow> catch_unzip_error (emit w [LoadAsync zipData]) thrown
      | Inr files \<Rightarrow>
          (case process_entries h cleanTargetFolderPath
                  \<lparr>env = emit w [LoadAsync zipData], fileCount = 0, folderPathsCreated = {}\<rparr>
                  files of
             (Some thrown, st) \<Rightarrow> catch_unzip_error (env st) thrown
           | (None, st) \<Rightarrow>
               emit (env st)
                 [Notice (''Successfully extracted '' @ digits_of (fileCount st)
                          @ '' new file(s) to '' @ [quote] @ targetFolder_path @ [quote] @ ''.''),
                  ConsoleLog (''Extraction complete to folder: '' @ targetFolder_path)]))"

text \<open>Lines 310-317: the URL check's verdict and the Dropbox rewriting.\<close>

definition valid_url :: "string \<Rightarrow> bool" where
  "valid_url url = (startsWith url ''http://'' \<or> startsWith url ''https://'')"

definition dropbox_fix :: "string \<Rightarrow> string" where
  "dropbox_fix url =
     (let url1 = replace_first url ''www.dropbox.com'' ''dl.dropboxusercontent.com'' in
      if includes_str url1 ''dropbox.com'' \<and> \<not> includes_str url1 ''dl=1''
      then (if includes_str url1 ''?'' then url1 @ ''&dl=1'' else url1 @ ''?dl=1'')
      else url1)"

text \<open>
  The whole command. \<open>targetFolderPath\<close> is \<^verbatim>\<open>this.settings.targetFolder\<close>.
\<close>

definition downloadAndUnzip :: "host \<Rightarrow> string \<Rightarrow> world \<Rightarrow> string \<Rightarrow> world" where
  "downloadAndUnzip h targetFolderPath w url0 =
     (if \<not> startsWith url0 ''http://'' \<and> \<not> startsWith url0 ''https://'' then
        emit w [Notice ''Invalid URL received. Must start with http:// or https://'']
      else
        let url = dropbox_fix url0 in
        case ensureFolderExists h w targetFolderPath of
          (None, w1) \<Rightarrow>
            emit w1 [Notice (''Target folder '' @ [dquote] @ targetFolderPath @ [dquote]
                             @ '' could not be found or created. Aborting.'')]
        | (Some targetFolder_path, w1) \<Rightarrow>
            let cleanTargetFolderPath =
                  (if targetFolder_path = ''/'' then '''' else targetFolder_path);
                w2 = emit w1 [Notice ''Downloading module...'',
                              ConsoleLog (''Requesting URL: '' @ url), RequestUrl url]
            in case requestUrl_result h url of
                 Inl thrown \<Rightarrow>
                   emit w2
                     [ConsoleError ''Download Error:'' [thrown],
                      Notice (''Failed to download file: '' @ message_text thrown
                        @ ''. Check console (Ctrl+Shift+I or Cmd+Opt+I).'')]
               | Inr zipData \<Rightarrow>
                   unzip_and_write h
                     (emit w2 [Notice ''Download complete. Unzipping...'',
                               ConsoleLog (''Downloaded '' @ digits_of (length zipData)
                                           @ '' bytes.'')])
                     targetFolder_path cleanTargetFolderPath zipData)"

subsection \<open>Notions used to state the properties\<close>

text \<open>
  A path denotes a directory of the tree when \<^verbatim>\<open>ensureFolderExists\<close> takes it for the
  root, or when the tree holds a folder at the path stripped of its outer slashes.
\<close>

definition is_directory :: "(string \<rightharpoonup> node) \<Rightarrow> string \<Rightarrow> bool" where
  "is_directory t p =
     (p = ''/'' \<or> p = '''' \<or> strip_slashes p = '''' \<or> t (strip_slashes p) = Some TFolder)"

text \<open>The events that a computation leading from \<open>w\<close> to \<open>w'\<close> appended to the trace.\<close>

definition new_events :: "world \<Rightarrow> world \<Rightarrow> event list" where
  "new_events w w' = drop (length (trace w)) (trace w')"

definition is_console_log :: "event \<Rightarrow> bool" where
  "is_console_log ev = (case ev of ConsoleLog _ \<Rightarrow> True | _ \<Rightarrow> False)"

subsection \<open>Concrete archives, hosts and vaults\<close>

text \<open>The archive of the specification's end-to-end example (section 8).\<close>

definition demo_files :: "zip_object list" where
  "demo_files =
     [\<lparr>name = ''week1/'', dir = True, async_arraybuffer = Inr []\<rparr>,
      \<lparr>name = ''week1/slides.pdf'', dir = False, async_arraybuffer = Inr [37, 80, 68, 70]\<rparr>,
      \<lparr>name = ''__MACOSX/._slides.pdf'', dir = False, async_arraybuffer = Inr [0, 5]\<rparr>,
      \<lparr>name = ''.DS_Store'', dir = False, async_arraybuffer = Inr [0, 0, 0, 1]\<rparr>]"

text \<open>A host on which every call succeeds.\<close>

definition demo_host :: host where
  "demo_host =
     \<lparr>requestUrl_result = (\<lambda>url. Inr [80, 75, 3, 4]),
      loadAsync_result = (\<lambda>zipData. Inr demo_files),
      createFolder_outcome = (\<lambda>p. FolderCreated),
      createBinary_failure = (\<lambda>p. None)\<rparr>"

text \<open>A host on which every folder creation loses a race.\<close>

definition racing_host :: host where
  "racing_host =
     demo_host\<lparr>createFolder_outcome :=
                 (\<lambda>p. FolderRaced (Error (Some ''Folder already exists.'')))\<rparr>"


text \<open>A vault that holds the default target folder and nothing else.\<close>

definition demo_world :: world where
  "demo_world = \<lparr>tree = [''Course Modules'' \<mapsto> TFolder], trace = []\<rparr>"

definition demo_state :: loop_state where
  "demo_state = \<lparr>env = demo_world, fileCount = 0, folderPathsCreated = {}\<rparr>"

definition is_vault_call :: "event \<Rightarrow> bool" where
  "is_vault_call ev =
     (case ev of GetAbstractFileByPath _ \<Rightarrow> True | CreateFolder _ \<Rightarrow> True
      | CreateBinary _ _ \<Rightarrow> True | _ \<Rightarrow> False)"

definition is_notice :: "event \<Rightarrow> bool" where
  "is_notice ev = (case ev of Notice _ \<Rightarrow> True | _ \<Rightarrow> False)"

definition is_warning :: "event \<Rightarrow> bool" where
  "is_warning ev =
     (case ev of ConsoleWarn _ \<Rightarrow> True | ConsoleError _ _ \<Rightarrow> True | Notice _ \<Rightarrow> True
      | _ \<Rightarrow> False)"

subsection \<open>Notions used for the invariants of a run\<close>

text \<open>The host lets a folder appear at a free path: the creation succeeds or is raced.\<close>

definition folder_appears :: "host \<Rightarrow> string \<Rightarrow> bool" where
  "folder_appears h p =
     (case createFolder_outcome h p of FolderFailed _ \<Rightarrow> False | _ \<Rightarrow> True)"

text \<open>
  How the tree can change during a run: what is there stays as it is, and a folder only
  appears where the host lets one appear.
\<close>

definition grows :: "host \<Rightarrow> (string \<rightharpoonup> node) \<Rightarrow> (string \<rightharpoonup> node) \<Rightarrow> bool" where
  "grows h t t' =
     (\<forall>k. (t k \<noteq> None \<longrightarrow> t' k = t k)
          \<and> (t' k = Some TFolder \<longrightarrow> t k = Some TFolder \<or> folder_appears h k))"

text \<open>Every remembered path denotes a directory of the current tree.\<close>

definition dirs_confirmed :: "loop_state \<Rightarrow> bool" where
  "dirs_confirmed st = (\<forall>p \<in> folderPathsCreated st. is_directory (tree (env st)) p)"

text \<open>
  Nothing is left to write at a destination: the code skips it, or the path it checks is
  occupied, or \<^verbatim>\<open>createBinary\<close> refuses (the destination is occupied or the host
  fails there).
\<close>

definition write_settled :: "host \<Rightarrow> (string \<rightharpoonup> node) \<Rightarrow> string \<Rightarrow> bool" where
  "write_settled h t normalizedDestPath =
     (let pathToCheck = pathToCheck_of normalizedDestPath in
      (pathToCheck = '''' \<and> normalizedDestPath = ''/'')
      \<or> (pathToCheck \<noteq> '''' \<and> t pathToCheck \<noteq> None)
      \<or> t normalizedDestPath \<noteq> None
      \<or> createBinary_failure h normalizedDestPath \<noteq> None)"

text \<open>
  Ensuring the path fails and will keep failing: it is not a directory, and it is occupied
  or the host lets no folder appear there.
\<close>

definition dir_dead :: "host \<Rightarrow> (string \<rightharpoonup> node) \<Rightarrow> string \<Rightarrow> bool" where
  "dir_dead h t p =
     (\<not> is_directory t p
      \<and> (t (strip_slashes p) \<noteq> None \<or> \<not> folder_appears h (strip_slashes p)))"

text \<open>Reading the entry's data throws and the entry is not dropped before.\<close>

definition throws :: "zip_object \<Rightarrow> bool" where
  "throws zipEntry =
     (\<not> is_metadata (name zipEntry) \<and> \<not> dir zipEntry \<and> isl (async_arraybuffer zipEntry))"

text \<open>
  An entry has nothing left to do in a tree: processing it changes neither the tree nor
  the counter.
\<close>

definition settled :: "host \<Rightarrow> string \<Rightarrow> (string \<rightharpoonup> node) \<Rightarrow> zip_object \<Rightarrow> bool" where
  "settled h cleanTargetFolderPath t zipEntry =
     (if is_metadata (name zipEntry) then True
      else
        let normalizedDestPath = normalizedDestPath_of cleanTargetFolderPath (name zipEntry) in
        if dir zipEntry then
          dirPath_of normalizedDestPath = ''''
          \<or> is_directory t (dirPath_of normalizedDestPath)
          \<or> dir_dead h t (dirPath_of normalizedDestPath)
        else if isl (async_arraybuffer zipEntry) then True
        else
          let parentPath = parentPath_of normalizedDestPath in
          if parentPath \<noteq> '''' \<and> parentPath \<noteq> cleanTargetFolderPath then
            dir_dead h t parentPath
            \<or> (is_directory t parentPath \<and> write_settled h t normalizedDestPath)
          else write_settled h t normalizedDestPath)"

text \<open>The entries that a run visits: all of them up to the first one that throws.\<close>

fun visited :: "zip_object list \<Rightarrow> zip_object list" where
  "visited [] = []"
| "visited (zipEntry # files) =
     (if throws zipEntry then [zipEntry] else zipEntry # visited files)"

text \<open>The loop state after the run of the end-to-end example on the demo vault.\<close>

definition demo_after :: loop_state where
  "demo_after = snd (process_entries demo_host ''Course Modules'' demo_state demo_files)"

text \<open>
  A vault in which the archive's file already exists with other bytes, and in which a
  folder occupies the name \<^verbatim>\<open>notes\<close> under the target.
\<close>

definition occupied_world :: world where
  "occupied_world =
     \<lparr>tree = [''Course Modules'' \<mapsto> TFolder, ''Course Modules/week1'' \<mapsto> TFolder,
              ''Course Modules/week1/slides.pdf'' \<mapsto> TFile [1, 2, 3],
              ''Course Modules/notes'' \<mapsto> TFolder],
      trace = []\<rparr>"

definition occupied_state :: loop_state where
  "occupied_state = \<lparr>env = occupied_world, fileCount = 0, folderPathsCreated = {}\<rparr>"

definition slides_entry :: zip_object where
  "slides_entry =
     \<lparr>name = ''week1/slides.pdf'', dir = False, async_arraybuffer = Inr [37, 80, 68, 70]\<rparr>"

definition notes_entry :: zip_object where
  "notes_entry = \<lparr>name = ''notes'', dir = False, async_arraybuffer = Inr [35, 32, 104, 105]\<rparr>"











subsection \<open>Where a path leads\<close>

text \<open>
  Walking the segments of a path from a stack of directory names (innermost first):
  empty segments and \<^verbatim>\<open>.\<close> stay, \<^verbatim>\<open>..\<close> goes up one level, any other segment
  goes down. The walk fails when \<^verbatim>\<open>..\<close> is met at the top.
\<close>

fun climb :: "string list \<Rightarrow> string list \<Rightarrow> string list option" where
  "climb stack [] = Some stack"
| "climb stack (segment # segments) =
     (if segment = '''' \<or> segment = ''.'' then climb stack segments
      else if segment = ''..'' then
        (case stack of [] \<Rightarrow> None | _ # up \<Rightarrow> climb up segments)
      else climb (segment # stack) segments)"

text \<open>
  The chain of names, outermost first, that a path denotes below the vault's root;
  \<open>None\<close> when the path climbs above the root.
\<close>

definition location :: "string \<Rightarrow> string list option" where
  "location p = map_option rev (climb [] (split p slash))"

text \<open>A path stays inside the subtree of a root path: its location extends the root's.\<close>

definition inside :: "string \<Rightarrow> string \<Rightarrow> bool" where
  "inside root p =
     (case location root of
        None \<Rightarrow> False
      | Some r \<Rightarrow> (case location p of None \<Rightarrow> False | Some q \<Rightarrow> take (length r) q = r))"

text \<open>The entry of the specification's path-safety example (section 8).\<close>

definition escape_entry :: zip_object where
  "escape_entry = \<lparr>name = ''../../escape.txt'', dir = False, async_arraybuffer = Inr [33]\<rparr>"

section \<open>Properties\<close>

subsection \<open>Basic facts\<close>

lemma tree_emit [simp]: "tree (emit w evs) = tree w"
  by (simp add: emit_def)

lemma trace_emit [simp]: "trace (emit w evs) = trace w @ evs"
  by (simp add: emit_def)

lemma strip_slashes_nonempty: "strip_slashes p \<noteq> '''' \<Longrightarrow> p \<noteq> ''/'' \<and> p \<noteq> ''''"
  by (auto simp: strip_slashes_def startsWith_def endsWith_def)

lemma strip_week1: "strip_slashes ''Course Modules/week1'' = ''Course Modules/week1''"
  by (simp add: strip_slashes_def startsWith_def endsWith_def)

subsection \<open>The URL guard\<close>

text \<open>
  Claim C10. A URL that starts with neither \<^verbatim>\<open>http://\<close> nor \<^verbatim>\<open>https://\<close> makes
  \<^verbatim>\<open>downloadAndUnzip\<close> return at once: the vault's tree is unchanged and the only
  event of the whole command is the notice, so no request is sent and no folder is looked
  up or created.
\<close>

theorem invalid_url_guard:
  assumes "\<not> startsWith url ''http://''" and "\<not> startsWith url ''https://''"
  shows "tree (downloadAndUnzip h targetFolderPath w url) = tree w
         \<and> trace (downloadAndUnzip h targetFolderPath w url) =
             trace w @ [Notice ''Invalid URL received. Must start with http:// or https://'']"
  using assms by (simp add: downloadAndUnzip_def)

theorem invalid_url_guard_witness:
  "\<not> startsWith ''ftp://example.org/module.zip'' ''http://''
   \<and> \<not> startsWith ''ftp://example.org/module.zip'' ''https://''
   \<and> tree (downloadAndUnzip demo_host ''Course Modules'' demo_world ''ftp://example.org/module.zip'')
       = tree demo_world
   \<and> trace (downloadAndUnzip demo_host ''Course Modules'' demo_world ''ftp://example.org/module.zip'')
       = [Notice ''Invalid URL received. Must start with http:// or https://'']"
proof -
  have a: "\<not> startsWith ''ftp://example.org/module.zip'' ''http://''"
    by (simp add: startsWith_def)
  have b: "\<not> startsWith ''ftp://example.org/module.zip'' ''https://''"
    by (simp add: startsWith_def)
  show ?thesis
    using a b invalid_url_guard [OF a b, of demo_host "''Course Modules''" demo_world]
    by (simp add: demo_world_def)
qed

subsection \<open>\<^verbatim>\<open>ensureFolderExists\<close> after a failed creation\<close>

text \<open>
  Claim C8. When \<^verbatim>\<open>ensureFolderExists\<close> finds nothing at a path and the creation call
  throws, it looks the path up again: it returns the folder exactly when the vault now
  holds a folder there, and \<^verbatim>\<open>null\<close> otherwise. The first five events of the call are
  the lookup, the console line, the creation call, the logged error and the second lookup.
\<close>

theorem creation_race_recovery:
  assumes "strip_slashes path \<noteq> ''''"
    and "tree w (strip_slashes path) = None"
    and "fst (createFolder h w (strip_slashes path)) = Inl creationError"
  shows "fst (ensureFolderExists h w path) =
           (if tree (snd (ensureFolderExists h w path)) (strip_slashes path) = Some TFolder
            then Some (strip_slashes path) else None)
         \<and> take 5 (new_events w (snd (ensureFolderExists h w path))) =
             [GetAbstractFileByPath (strip_slashes path),
              ConsoleLog (''Attempting to create folder: '' @ strip_slashes path),
              CreateFolder (strip_slashes path),
              ConsoleError (''Error creating folder '' @ [quote] @ strip_slashes path @ [quote]
                            @ '':'') [creationError],
              GetAbstractFileByPath (strip_slashes path)]"
  using assms strip_slashes_nonempty [OF assms(1)]
  by (auto simp: ensureFolderExists_def getAbstractFileByPath_def createFolder_def Let_def
                 new_events_def
           split: option.splits node.splits folder_outcome.splits prod.splits)

theorem creation_race_recovery_witness:
  "strip_slashes ''Course Modules/week1'' \<noteq> ''''
   \<and> tree demo_world (strip_slashes ''Course Modules/week1'') = None
   \<and> fst (createFolder racing_host demo_world (strip_slashes ''Course Modules/week1''))
       = Inl (Error (Some ''Folder already exists.''))
   \<and> fst (ensureFolderExists racing_host demo_world ''Course Modules/week1'')
       = Some ''Course Modules/week1''"
proof -
  have a: "strip_slashes ''Course Modules/week1'' \<noteq> ''''"
    by (simp add: strip_week1)
  have b: "tree demo_world (strip_slashes ''Course Modules/week1'') = None"
    by (simp add: strip_week1 demo_world_def)
  have c: "fst (createFolder racing_host demo_world (strip_slashes ''Course Modules/week1''))
             = Inl (Error (Some ''Folder already exists.''))"
    by (simp add: strip_week1 demo_world_def createFolder_def racing_host_def demo_host_def)
  have d: "tree (snd (ensureFolderExists racing_host demo_world ''Course Modules/week1''))
             ''Course Modules/week1'' = Some TFolder"
    by (simp add: ensureFolderExists_def Let_def strip_week1 getAbstractFileByPath_def
                  demo_world_def createFolder_def racing_host_def demo_host_def)
  show ?thesis
    using a b c d creation_race_recovery [OF a b c]
    by (simp add: strip_week1)
qed

subsection \<open>Metadata entries\<close>

text \<open>
  Claim C4. An entry whose name starts with \<^verbatim>\<open>__MACOSX/\<close>, whose last segment is
  \<^verbatim>\<open>.DS_Store\<close>, or whose name is empty is dropped, whatever the state: the
  iteration ends without an error, the tree, the counter and the set of ensured folders
  are unchanged, and the only events are console log lines (no vault call, no warning,
  no notice).
\<close>

theorem metadata_entries_dropped:
  assumes "startsWith (name zipEntry) ''__MACOSX/''
           \<or> last (split (name zipEntry) slash) = ''.DS_Store''
           \<or> name zipEntry = ''''"
    and "process_entry h cleanTargetFolderPath st zipEntry = (thrown, st')"
  shows "thrown = None
         \<and> tree (env st') = tree (env st)
         \<and> fileCount st' = fileCount st
         \<and> folderPathsCreated st' = folderPathsCreated st
         \<and> trace (env st') = trace (env st) @ new_events (env st) (env st')
         \<and> list_all is_console_log (new_events (env st) (env st'))"
  using assms
  by (auto simp: process_entry_def is_metadata_def metadata_log_def new_events_def
                 is_console_log_def Let_def)

theorem metadata_entries_dropped_witness:
  "(startsWith ''notes/.DS_Store'' ''__MACOSX/''
      \<or> last (split ''notes/.DS_Store'' slash) = ''.DS_Store'' \<or> ''notes/.DS_Store'' = '''')
   \<and> process_entry demo_host ''Course Modules'' demo_state
         \<lparr>name = ''notes/.DS_Store'', dir = False, async_arraybuffer = Inr [1]\<rparr>
       = (None, demo_state\<lparr>env := emit demo_world
                      [ConsoleLog ''Ignoring .DS_Store file: notes/.DS_Store'']\<rparr>)
   \<and> tree (emit demo_world [ConsoleLog ''Ignoring .DS_Store file: notes/.DS_Store'']) = tree demo_world"
proof -
  have a: "startsWith (name \<lparr>name = ''notes/.DS_Store'', dir = False, async_arraybuffer = Inr [1]\<rparr>) ''__MACOSX/''
      \<or> last (split (name \<lparr>name = ''notes/.DS_Store'', dir = False, async_arraybuffer = Inr [1]\<rparr>) slash) = ''.DS_Store''
      \<or> name \<lparr>name = ''notes/.DS_Store'', dir = False, async_arraybuffer = Inr [1]\<rparr> = ''''"
    by simp
  have b: "process_entry demo_host ''Course Modules'' demo_state
         \<lparr>name = ''notes/.DS_Store'', dir = False, async_arraybuffer = Inr [1]\<rparr>
       = (None, demo_state\<lparr>env := emit demo_world
                      [ConsoleLog ''Ignoring .DS_Store file: notes/.DS_Store'']\<rparr>)"
    by (simp add: process_entry_def is_metadata_def metadata_log_def startsWith_def demo_state_def)
  show ?thesis
    using a b metadata_entries_dropped [OF a b]
    by (simp add: demo_state_def)
qed

subsection \<open>A buffer that does not decode\<close>



subsection \<open>What \<^verbatim>\<open>ensureFolderExists\<close> does to the vault\<close>

lemma ensure_tree:
  "tree (snd (ensureFolderExists h w p)) =
     (if \<not> is_directory (tree w) p \<and> tree w (strip_slashes p) = None
         \<and> folder_appears h (strip_slashes p)
      then (tree w)(strip_slashes p \<mapsto> TFolder) else tree w)"
  by (auto simp: ensureFolderExists_def getAbstractFileByPath_def createFolder_def Let_def
                 is_directory_def folder_appears_def
           split: option.splits node.splits folder_outcome.splits prod.splits)

lemma ensure_result:
  "fst (ensureFolderExists h w p) \<noteq> None
     \<longleftrightarrow> is_directory (tree (snd (ensureFolderExists h w p))) p"
  by (auto simp: ensureFolderExists_def getAbstractFileByPath_def createFolder_def Let_def
                 is_directory_def
           split: option.splits node.splits folder_outcome.splits prod.splits)

lemma ensure_trace: "\<exists>evs. trace (snd (ensureFolderExists h w p)) = trace w @ evs"
  by (auto simp: ensureFolderExists_def getAbstractFileByPath_def createFolder_def Let_def
           split: option.splits node.splits folder_outcome.splits prod.splits)

lemma ensure_directory:
  "is_directory (tree w) p \<Longrightarrow>
     ensureFolderExists h w p =
       (if p = ''/'' \<or> p = '''' \<or> strip_slashes p = '''' then (Some ''/'', w)
        else (Some (strip_slashes p), emit w [GetAbstractFileByPath (strip_slashes p)]))"
  by (auto simp: ensureFolderExists_def getAbstractFileByPath_def Let_def is_directory_def)

lemma grows_refl: "grows h t t"
  by (simp add: grows_def)

lemma grows_trans: "grows h t t' \<Longrightarrow> grows h t' t'' \<Longrightarrow> grows h t t''"
  unfolding grows_def by metis

lemma is_directory_grows: "grows h t t' \<Longrightarrow> is_directory t p \<Longrightarrow> is_directory t' p"
  unfolding grows_def is_directory_def by (metis option.distinct(1))

lemma ensure_grows: "grows h (tree w) (tree (snd (ensureFolderExists h w p)))"
  by (simp add: ensure_tree grows_def)

subsection \<open>What the conflict policy does to the vault\<close>

lemma write_file_set [simp]:
  "folderPathsCreated (write_file h st d fileData) = folderPathsCreated st"
  by (auto simp: write_file_def getAbstractFileByPath_def createBinary_def Let_def
           split: option.splits node.splits prod.splits)

lemma write_file_tree:
  "tree (env (write_file h st d fileData)) =
     (if write_settled h (tree (env st)) d then tree (env st)
      else (tree (env st))(d \<mapsto> TFile fileData))"
  by (auto simp: write_file_def getAbstractFileByPath_def createBinary_def Let_def
                 write_settled_def
           split: option.splits node.splits prod.splits)

lemma write_file_count:
  "fileCount (write_file h st d fileData) =
     (if write_settled h (tree (env st)) d then fileCount st else fileCount st + 1)"
  by (auto simp: write_file_def getAbstractFileByPath_def createBinary_def Let_def
                 write_settled_def
           split: option.splits node.splits prod.splits)

lemma write_file_trace:
  "\<exists>evs. trace (env (write_file h st d fileData)) = trace (env st) @ evs"
  by (auto simp: write_file_def getAbstractFileByPath_def createBinary_def Let_def
           split: option.splits node.splits prod.splits)

lemma write_file_grows: "grows h (tree (env st)) (tree (env (write_file h st d fileData)))"
  by (auto simp: write_file_tree grows_def write_settled_def)

lemma write_file_settles:
  "write_settled h (tree (env (write_file h st d fileData))) d"
  by (auto simp: write_file_tree write_settled_def Let_def)

lemma ensureD:
  assumes "ensureFolderExists h w p = (r, w1)"
  shows "tree w1 =
           (if \<not> is_directory (tree w) p \<and> tree w (strip_slashes p) = None
               \<and> folder_appears h (strip_slashes p)
            then (tree w)(strip_slashes p \<mapsto> TFolder) else tree w)"
    and "r \<noteq> None \<longleftrightarrow> is_directory (tree w1) p"
    and "grows h (tree w) (tree w1)"
    and "\<exists>evs. trace w1 = trace w @ evs"
  using assms ensure_tree [of h w p] ensure_result [of h w p] ensure_grows [of h w p]
    ensure_trace [of h w p]
  by simp_all

lemma ensure_dead:
  assumes "ensureFolderExists h w p = (None, w1)"
  shows "dir_dead h (tree w1) p" and "tree w1 = tree w"
proof -
  have nd: "\<not> is_directory (tree w1) p"
    using ensureD(2) [OF assms] by simp
  have t: "tree w1 =
           (if \<not> is_directory (tree w) p \<and> tree w (strip_slashes p) = None
               \<and> folder_appears h (strip_slashes p)
            then (tree w)(strip_slashes p \<mapsto> TFolder) else tree w)"
    by (rule ensureD(1) [OF assms])
  have keep: "\<not> (\<not> is_directory (tree w) p \<and> tree w (strip_slashes p) = None
               \<and> folder_appears h (strip_slashes p))"
  proof
    assume c: "\<not> is_directory (tree w) p \<and> tree w (strip_slashes p) = None
               \<and> folder_appears h (strip_slashes p)"
    then have "tree w1 (strip_slashes p) = Some TFolder" using t by simp
    then show False using nd by (simp add: is_directory_def)
  qed
  show "tree w1 = tree w" using t keep by presburger
  then show "dir_dead h (tree w1) p"
    using nd keep by (auto simp: dir_dead_def)
qed

lemma ensure_inert:
  assumes "is_directory (tree w) p \<or> dir_dead h (tree w) p"
  shows "tree (snd (ensureFolderExists h w p)) = tree w"
  using assms by (auto simp: ensure_tree dir_dead_def)

subsection \<open>Stability of the notions while the tree grows\<close>

lemma dir_dead_grows: "grows h t t' \<Longrightarrow> dir_dead h t p \<Longrightarrow> dir_dead h t' p"
  unfolding grows_def dir_dead_def is_directory_def by (metis option.distinct(1))

lemma write_settled_grows: "grows h t t' \<Longrightarrow> write_settled h t d \<Longrightarrow> write_settled h t' d"
  unfolding grows_def write_settled_def Let_def by metis

lemma settled_grows:
  assumes "grows h t t'" and "settled h ct t e"
  shows "settled h ct t' e"
  using assms(2) dir_dead_grows [OF assms(1)] is_directory_grows [OF assms(1)]
    write_settled_grows [OF assms(1)]
  unfolding settled_def Let_def
  by (auto split: if_splits)

subsection \<open>One iteration: the tree grows and remembered folders stay confirmed\<close>

lemma handle_directory_count [simp]:
  "fileCount (handle_directory h st d) = fileCount st"
  by (auto simp: handle_directory_def Let_def split: prod.splits option.splits)

lemma handle_directory_grows:
  "grows h (tree (env st)) (tree (env (handle_directory h st d)))"
  by (auto simp: handle_directory_def Let_def grows_refl split: prod.splits option.splits
           dest: ensureD(3))

lemma handle_directory_trace:
  "\<exists>evs. trace (env (handle_directory h st d)) = trace (env st) @ evs"
  by (auto simp: handle_directory_def Let_def split: prod.splits option.splits
           dest: ensureD(4))

lemma dirs_confirmed_grows:
  assumes "dirs_confirmed st" and "grows h (tree (env st)) (tree (env st1))"
    and "folderPathsCreated st1 = folderPathsCreated st"
  shows "dirs_confirmed st1"
  using assms is_directory_grows [OF assms(2)] by (simp add: dirs_confirmed_def)

lemma dirs_confirmed_insert:
  assumes "dirs_confirmed st" and "ensureFolderExists h (env st) p = (Some x, w1)"
  shows "dirs_confirmed (st\<lparr>env := w1, folderPathsCreated := insert p (folderPathsCreated st)\<rparr>)"
  using assms(1) ensureD(2) [OF assms(2)] is_directory_grows [OF ensureD(3) [OF assms(2)]]
  by (simp add: dirs_confirmed_def)

lemma dirs_confirmed_emit:
  assumes "dirs_confirmed st" and "ensureFolderExists h (env st) p = (None, w1)"
  shows "dirs_confirmed (st\<lparr>env := emit w1 evs\<rparr>)"
  using assms(1) is_directory_grows [OF ensureD(3) [OF assms(2)]]
  by (simp add: dirs_confirmed_def)

lemma handle_directory_confirmed:
  "dirs_confirmed st \<Longrightarrow> dirs_confirmed (handle_directory h st d)"
  by (auto simp: handle_directory_def Let_def split: prod.splits option.splits
           intro: dirs_confirmed_insert dirs_confirmed_emit)

lemma ensure_parent_count:
  "fileCount (snd (ensure_parent h ct st d)) = fileCount st"
  by (auto simp: ensure_parent_def Let_def split: prod.splits option.splits)

lemma ensure_parent_grows:
  "grows h (tree (env st)) (tree (env (snd (ensure_parent h ct st d))))"
  by (auto simp: ensure_parent_def Let_def grows_refl split: prod.splits option.splits
           dest: ensureD(3))

lemma ensure_parent_trace:
  "\<exists>evs. trace (env (snd (ensure_parent h ct st d))) = trace (env st) @ evs"
  by (auto simp: ensure_parent_def Let_def split: prod.splits option.splits
           dest: ensureD(4))

lemma ensure_parent_confirmed:
  "dirs_confirmed st \<Longrightarrow> dirs_confirmed (snd (ensure_parent h ct st d))"
  by (auto simp: ensure_parent_def Let_def split: prod.splits option.splits
           intro: dirs_confirmed_insert dirs_confirmed_emit)

lemma write_file_confirmed:
  "dirs_confirmed st \<Longrightarrow> dirs_confirmed (write_file h st d fileData)"
  by (rule dirs_confirmed_grows [OF _ write_file_grows]) simp_all

lemma handle_file_grows:
  "grows h (tree (env st)) (tree (env (snd (handle_file h ct st d content))))"
proof (cases content)
  case (Inl thrown)
  then show ?thesis by (simp add: handle_file_def grows_refl)
next
  case (Inr fileData)
  show ?thesis
  proof (cases "ensure_parent h ct st d")
    case (Pair ok st1)
    have g1: "grows h (tree (env st)) (tree (env st1))"
      using ensure_parent_grows [of h st ct d] Pair by simp
    show ?thesis
      using Inr Pair g1 grows_trans [OF g1 write_file_grows [of h st1 d fileData]]
      by (simp add: handle_file_def split: bool.splits)
  qed
qed

lemma handle_file_confirmed:
  "dirs_confirmed st \<Longrightarrow> dirs_confirmed (snd (handle_file h ct st d content))"
  using ensure_parent_confirmed [of st h ct d]
  by (auto simp: handle_file_def split: sum.splits prod.splits bool.splits
           intro: write_file_confirmed)

lemma handle_file_trace:
  "\<exists>evs. trace (env (snd (handle_file h ct st d content))) = trace (env st) @ evs"
proof (cases content)
  case (Inl thrown)
  then show ?thesis by (simp add: handle_file_def)
next
  case (Inr fileData)
  show ?thesis
  proof (cases "ensure_parent h ct st d")
    case (Pair ok st1)
    obtain evs1 where e1: "trace (env st1) = trace (env st) @ evs1"
      using ensure_parent_trace [of h ct st d] Pair by auto
    obtain evs2 where e2: "trace (env (write_file h st1 d fileData)) = trace (env st1) @ evs2"
      using write_file_trace by blast
    show ?thesis
      using Inr Pair e1 e2 by (cases ok) (simp_all add: handle_file_def)
  qed
qed

lemma process_entry_grows:
  "grows h (tree (env st)) (tree (env (snd (process_entry h ct st e))))"
  by (simp add: process_entry_def Let_def grows_refl handle_directory_grows handle_file_grows)

lemma process_entry_confirmed:
  "dirs_confirmed st \<Longrightarrow> dirs_confirmed (snd (process_entry h ct st e))"
  by (simp add: process_entry_def Let_def handle_directory_confirmed handle_file_confirmed)
    (simp add: dirs_confirmed_def)

lemma process_entry_trace:
  "\<exists>evs. trace (env (snd (process_entry h ct st e))) = trace (env st) @ evs"
  by (simp add: process_entry_def Let_def handle_directory_trace handle_file_trace)

subsection \<open>One iteration settles its entry, and a settled entry changes nothing\<close>

lemma handle_directory_skip:
  "\<not> (dirPath_of d \<noteq> '''' \<and> dirPath_of d \<notin> folderPathsCreated st) \<Longrightarrow>
     handle_directory h st d = st"
  by (auto simp: handle_directory_def Let_def)

lemma handle_directory_call:
  assumes "dirPath_of d \<noteq> ''''" and "dirPath_of d \<notin> folderPathsCreated st"
    and "ensureFolderExists h (env st) (dirPath_of d) = (r, w1)"
  shows "tree (env (handle_directory h st d)) = tree w1"
    and "r = None \<Longrightarrow> folderPathsCreated (handle_directory h st d) = folderPathsCreated st"
    and "r \<noteq> None \<Longrightarrow>
           handle_directory h st d =
             st\<lparr>env := w1, folderPathsCreated := insert (dirPath_of d) (folderPathsCreated st)\<rparr>"
  using assms by (auto simp: handle_directory_def Let_def split: option.splits)

lemma handle_directory_settles:
  assumes "dirs_confirmed st"
  shows "dirPath_of d = ''''
         \<or> is_directory (tree (env (handle_directory h st d))) (dirPath_of d)
         \<or> dir_dead h (tree (env (handle_directory h st d))) (dirPath_of d)"
proof (cases "dirPath_of d \<noteq> '''' \<and> dirPath_of d \<notin> folderPathsCreated st")
  case False
  then have "handle_directory h st d = st" by (rule handle_directory_skip)
  moreover have "dirPath_of d \<in> folderPathsCreated st \<Longrightarrow>
                 is_directory (tree (env st)) (dirPath_of d)"
    using assms by (simp add: dirs_confirmed_def)
  ultimately show ?thesis using False by auto
next
  case True
  obtain r w1 where e: "ensureFolderExists h (env st) (dirPath_of d) = (r, w1)"
    by (cases "ensureFolderExists h (env st) (dirPath_of d)")
  have t: "tree (env (handle_directory h st d)) = tree w1"
    using handle_directory_call(1) True e by blast
  show ?thesis
  proof (cases r)
    case None
    then have "dir_dead h (tree w1) (dirPath_of d)"
      using e ensure_dead(1) by blast
    then show ?thesis using t by simp
  next
    case (Some x)
    then have "is_directory (tree w1) (dirPath_of d)"
      using ensureD(2) [OF e] by simp
    then show ?thesis using t by simp
  qed
qed

lemma handle_directory_noop:
  assumes "dirPath_of d = '''' \<or> is_directory (tree (env st)) (dirPath_of d)
           \<or> dir_dead h (tree (env st)) (dirPath_of d)"
  shows "tree (env (handle_directory h st d)) = tree (env st)"
proof (cases "dirPath_of d \<noteq> '''' \<and> dirPath_of d \<notin> folderPathsCreated st")
  case False
  then show ?thesis by (simp add: handle_directory_skip)
next
  case True
  obtain r w1 where e: "ensureFolderExists h (env st) (dirPath_of d) = (r, w1)"
    by (cases "ensureFolderExists h (env st) (dirPath_of d)")
  have "is_directory (tree (env st)) (dirPath_of d) \<or> dir_dead h (tree (env st)) (dirPath_of d)"
    using assms True by simp
  then have "tree (snd (ensureFolderExists h (env st) (dirPath_of d))) = tree (env st)"
    by (rule ensure_inert)
  then have "tree w1 = tree (env st)" using e by simp
  then show ?thesis using handle_directory_call(1) True e by simp
qed

lemma ensure_parent_skip:
  "\<not> (parentPath_of d \<noteq> '''' \<and> parentPath_of d \<noteq> ct
      \<and> parentPath_of d \<notin> folderPathsCreated st) \<Longrightarrow>
     ensure_parent h ct st d = (True, st)"
  by (auto simp: ensure_parent_def Let_def)

lemma ensure_parent_call:
  assumes "parentPath_of d \<noteq> ''''" and "parentPath_of d \<noteq> ct"
    and "parentPath_of d \<notin> folderPathsCreated st"
    and "ensureFolderExists h (env st) (parentPath_of d) = (r, w1)"
  shows "tree (env (snd (ensure_parent h ct st d))) = tree w1"
    and "fst (ensure_parent h ct st d) = (r \<noteq> None)"
  using assms by (auto simp: ensure_parent_def Let_def split: option.splits)

lemma ensure_parent_False:
  assumes "ensure_parent h ct st d = (False, st1)"
  shows "parentPath_of d \<noteq> '''' \<and> parentPath_of d \<noteq> ct
         \<and> dir_dead h (tree (env st1)) (parentPath_of d)
         \<and> tree (env st1) = tree (env st)"
proof (cases "parentPath_of d \<noteq> '''' \<and> parentPath_of d \<noteq> ct
              \<and> parentPath_of d \<notin> folderPathsCreated st")
  case False
  then show ?thesis using assms ensure_parent_skip [of d ct st h] by simp
next
  case True
  obtain r w1 where e: "ensureFolderExists h (env st) (parentPath_of d) = (r, w1)"
    by (cases "ensureFolderExists h (env st) (parentPath_of d)")
  have t: "tree (env st1) = tree w1"
    using ensure_parent_call(1) [of d ct st h r w1] True e assms by simp
  have "r = None"
    using ensure_parent_call(2) [of d ct st h r w1] True e assms by simp
  then have "dir_dead h (tree w1) (parentPath_of d)" and "tree w1 = tree (env st)"
    using e ensure_dead [of h "env st" "parentPath_of d" w1] by simp_all
  then show ?thesis using t True by simp
qed

lemma ensure_parent_True:
  assumes "ensure_parent h ct st d = (True, st1)" and "dirs_confirmed st"
  shows "parentPath_of d = '''' \<or> parentPath_of d = ct
         \<or> is_directory (tree (env st1)) (parentPath_of d)"
proof (cases "parentPath_of d \<noteq> '''' \<and> parentPath_of d \<noteq> ct
              \<and> parentPath_of d \<notin> folderPathsCreated st")
  case False
  then have "st1 = st" using assms(1) ensure_parent_skip [of d ct st h] by simp
  then show ?thesis using False assms(2) by (auto simp: dirs_confirmed_def)
next
  case True
  obtain r w1 where e: "ensureFolderExists h (env st) (parentPath_of d) = (r, w1)"
    by (cases "ensureFolderExists h (env st) (parentPath_of d)")
  have t: "tree (env st1) = tree w1"
    using ensure_parent_call(1) [of d ct st h r w1] True e assms by simp
  have "r \<noteq> None"
    using ensure_parent_call(2) [of d ct st h r w1] True e assms by simp
  then have "is_directory (tree w1) (parentPath_of d)"
    using ensureD(2) [OF e] by simp
  then show ?thesis using t by simp
qed

lemma ensure_parent_noop:
  assumes "parentPath_of d = '''' \<or> parentPath_of d = ct
           \<or> is_directory (tree (env st)) (parentPath_of d)
           \<or> dir_dead h (tree (env st)) (parentPath_of d)"
  shows "tree (env (snd (ensure_parent h ct st d))) = tree (env st)"
proof (cases "parentPath_of d \<noteq> '''' \<and> parentPath_of d \<noteq> ct
              \<and> parentPath_of d \<notin> folderPathsCreated st")
  case False
  then show ?thesis by (simp add: ensure_parent_skip)
next
  case True
  obtain r w1 where e: "ensureFolderExists h (env st) (parentPath_of d) = (r, w1)"
    by (cases "ensureFolderExists h (env st) (parentPath_of d)")
  have "is_directory (tree (env st)) (parentPath_of d)
        \<or> dir_dead h (tree (env st)) (parentPath_of d)"
    using assms True by simp
  then have "tree (snd (ensureFolderExists h (env st) (parentPath_of d))) = tree (env st)"
    by (rule ensure_inert)
  then have "tree w1 = tree (env st)" using e by simp
  then show ?thesis using ensure_parent_call(1) [of d ct st h r w1] True e by simp
qed

lemma handle_file_settles:
  assumes "dirs_confirmed st"
  shows "(if parentPath_of d \<noteq> '''' \<and> parentPath_of d \<noteq> ct
          then dir_dead h (tree (env (snd (handle_file h ct st d (Inr fileData))))) (parentPath_of d)
               \<or> (is_directory (tree (env (snd (handle_file h ct st d (Inr fileData)))))
                     (parentPath_of d)
                  \<and> write_settled h (tree (env (snd (handle_file h ct st d (Inr fileData))))) d)
          else write_settled h (tree (env (snd (handle_file h ct st d (Inr fileData))))) d)"
proof (cases "ensure_parent h ct st d")
  case (Pair ok st1)
  show ?thesis
  proof (cases ok)
    case False
    then show ?thesis
      using Pair ensure_parent_False [of h ct st d st1] by (auto simp: handle_file_def)
  next
    case True
    have p: "parentPath_of d = '''' \<or> parentPath_of d = ct
             \<or> is_directory (tree (env st1)) (parentPath_of d)"
      using ensure_parent_True [of h ct st d st1] Pair True assms by simp
    have q: "is_directory (tree (env st1)) (parentPath_of d) \<Longrightarrow>
             is_directory (tree (env (write_file h st1 d fileData))) (parentPath_of d)"
      using is_directory_grows [OF write_file_grows] by blast
    have r: "snd (handle_file h ct st d (Inr fileData)) = write_file h st1 d fileData"
      using Pair True by (simp add: handle_file_def)
    show ?thesis
      unfolding r using p q write_file_settles [of h st1 d fileData] by auto
  qed
qed

lemma handle_file_noop:
  assumes "dirs_confirmed st"
    and "(if parentPath_of d \<noteq> '''' \<and> parentPath_of d \<noteq> ct
          then dir_dead h (tree (env st)) (parentPath_of d)
               \<or> (is_directory (tree (env st)) (parentPath_of d)
                  \<and> write_settled h (tree (env st)) d)
          else write_settled h (tree (env st)) d)"
  shows "tree (env (snd (handle_file h ct st d (Inr fileData)))) = tree (env st)
         \<and> fileCount (snd (handle_file h ct st d (Inr fileData))) = fileCount st"
proof (cases "ensure_parent h ct st d")
  case (Pair ok st1)
  have "parentPath_of d = '''' \<or> parentPath_of d = ct
        \<or> is_directory (tree (env st)) (parentPath_of d)
        \<or> dir_dead h (tree (env st)) (parentPath_of d)"
    using assms(2) by (cases "parentPath_of d \<noteq> '''' \<and> parentPath_of d \<noteq> ct") auto
  then have "tree (env (snd (ensure_parent h ct st d))) = tree (env st)"
    by (rule ensure_parent_noop)
  then have t1: "tree (env st1) = tree (env st)"
    using Pair by simp
  have c1: "fileCount st1 = fileCount st"
    using ensure_parent_count [of h ct st d] Pair by simp
  show ?thesis
  proof (cases ok)
    case False
    then show ?thesis using Pair t1 c1 by (simp add: handle_file_def)
  next
    case True
    have p: "parentPath_of d = '''' \<or> parentPath_of d = ct
             \<or> is_directory (tree (env st1)) (parentPath_of d)"
      using ensure_parent_True [of h ct st d st1] Pair True assms(1) by simp
    have "write_settled h (tree (env st)) d"
      using assms(2) p t1
      by (cases "parentPath_of d \<noteq> '''' \<and> parentPath_of d \<noteq> ct") (auto simp: dir_dead_def)
    then show ?thesis
      using Pair True t1 c1 by (simp add: handle_file_def write_file_tree write_file_count)
  qed
qed

lemma process_entry_settles:
  assumes "dirs_confirmed st"
  shows "settled h ct (tree (env (snd (process_entry h ct st e)))) e"
proof (cases "is_metadata (name e)")
  case True
  then show ?thesis by (simp add: settled_def)
next
  case False
  note nometa = this
  show ?thesis
  proof (cases "dir e")
    case True
    then show ?thesis
      using nometa handle_directory_settles [OF assms]
      by (simp add: settled_def process_entry_def Let_def)
  next
    case False
    note nodir = this
    show ?thesis
    proof (cases "async_arraybuffer e")
      case (Inl thrown)
      then show ?thesis using nodir by (simp add: settled_def Let_def)
    next
      case (Inr fileData)
      then show ?thesis
        using nometa nodir
          handle_file_settles [OF assms, of "normalizedDestPath_of ct (name e)" ct h fileData]
        by (simp add: settled_def process_entry_def Let_def)
    qed
  qed
qed

lemma process_entry_noop:
  assumes "dirs_confirmed st" and "settled h ct (tree (env st)) e"
  shows "tree (env (snd (process_entry h ct st e))) = tree (env st)
         \<and> fileCount (snd (process_entry h ct st e)) = fileCount st"
proof (cases "is_metadata (name e)")
  case True
  then show ?thesis by (simp add: process_entry_def)
next
  case False
  note nometa = this
  show ?thesis
  proof (cases "dir e")
    case True
    then show ?thesis
      using nometa assms(2) handle_directory_noop [of "normalizedDestPath_of ct (name e)" st h]
      by (simp add: settled_def process_entry_def Let_def)
  next
    case False
    note nodir = this
    show ?thesis
    proof (cases "async_arraybuffer e")
      case (Inl thrown)
      then show ?thesis using nometa nodir by (simp add: process_entry_def handle_file_def)
    next
      case (Inr fileData)
      then show ?thesis
        using nometa nodir assms(2)
          handle_file_noop [OF assms(1), of "normalizedDestPath_of ct (name e)" ct h fileData]
        by (simp add: settled_def process_entry_def Let_def)
    qed
  qed
qed

subsection \<open>The loop\<close>

lemma process_entry_throws:
  "fst (process_entry h ct st e) \<noteq> None \<longleftrightarrow> throws e"
  by (auto simp: process_entry_def handle_file_def throws_def Let_def
           split: sum.splits prod.splits bool.splits)

lemma process_entries_Cons:
  "process_entries h ct st (e # es) =
     (if throws e then process_entry h ct st e
      else process_entries h ct (snd (process_entry h ct st e)) es)"
proof (cases "process_entry h ct st e")
  case (Pair r st1)
  then show ?thesis
    using process_entry_throws [of h ct st e] by (cases r) auto
qed

lemma process_entries_grows:
  "grows h (tree (env st)) (tree (env (snd (process_entries h ct st es))))"
proof (induction es arbitrary: st)
  case Nil
  then show ?case by (simp add: grows_refl)
next
  case (Cons e es)
  show ?case
    using process_entry_grows [of h st ct e]
      grows_trans [OF process_entry_grows [of h st ct e] Cons.IH [of "snd (process_entry h ct st e)"]]
    by (simp add: process_entries_Cons del: process_entries.simps)
qed

lemma process_entries_confirmed:
  "dirs_confirmed st \<Longrightarrow> dirs_confirmed (snd (process_entries h ct st es))"
proof (induction es arbitrary: st)
  case Nil
  then show ?case by simp
next
  case (Cons e es)
  show ?case
    using process_entry_confirmed [OF Cons.prems, of h ct e]
      Cons.IH [OF process_entry_confirmed [OF Cons.prems, of h ct e]]
    by (simp add: process_entries_Cons del: process_entries.simps)
qed

lemma process_entries_trace:
  "\<exists>evs. trace (env (snd (process_entries h ct st es))) = trace (env st) @ evs"
proof (induction es arbitrary: st)
  case Nil
  then show ?case by simp
next
  case (Cons e es)
  obtain evs1 where a: "trace (env (snd (process_entry h ct st e))) = trace (env st) @ evs1"
    using process_entry_trace by blast
  obtain evs2 where b: "trace (env (snd (process_entries h ct (snd (process_entry h ct st e)) es)))
                         = trace (env (snd (process_entry h ct st e))) @ evs2"
    using Cons.IH by blast
  show ?case
    using a b by (simp add: process_entries_Cons del: process_entries.simps)
qed

lemma run_settles:
  assumes "dirs_confirmed st" and "e \<in> set (visited es)"
  shows "settled h ct (tree (env (snd (process_entries h ct st es)))) e"
  using assms
proof (induction es arbitrary: st)
  case Nil
  then show ?case by simp
next
  case (Cons a es)
  let ?st1 = "snd (process_entry h ct st a)"
  have s1: "settled h ct (tree (env ?st1)) a"
    using process_entry_settles [OF Cons.prems(1)] .
  have c1: "dirs_confirmed ?st1"
    using process_entry_confirmed [OF Cons.prems(1)] .
  show ?case
  proof (cases "throws a")
    case True
    then show ?thesis
      using Cons.prems(2) s1 by (simp add: process_entries_Cons del: process_entries.simps)
  next
    case False
    have "e = a \<or> e \<in> set (visited es)"
      using Cons.prems(2) False by simp
    then show ?thesis
    proof
      assume "e = a"
      then show ?thesis
        using False settled_grows [OF process_entries_grows [of h ?st1 ct es] s1]
        by (simp add: process_entries_Cons del: process_entries.simps)
    next
      assume "e \<in> set (visited es)"
      then show ?thesis
        using False Cons.IH [OF c1]
        by (simp add: process_entries_Cons del: process_entries.simps)
    qed
  qed
qed

lemma run_noop:
  assumes "dirs_confirmed st" and "\<forall>e \<in> set (visited es). settled h ct (tree (env st)) e"
  shows "tree (env (snd (process_entries h ct st es))) = tree (env st)
         \<and> fileCount (snd (process_entries h ct st es)) = fileCount st"
  using assms
proof (induction es arbitrary: st)
  case Nil
  then show ?case by simp
next
  case (Cons a es)
  let ?st1 = "snd (process_entry h ct st a)"
  have "settled h ct (tree (env st)) a"
    using Cons.prems(2) by (simp split: if_splits)
  then have n1: "tree (env ?st1) = tree (env st) \<and> fileCount ?st1 = fileCount st"
    using process_entry_noop [OF Cons.prems(1)] by blast
  have c1: "dirs_confirmed ?st1"
    using process_entry_confirmed [OF Cons.prems(1)] .
  show ?case
  proof (cases "throws a")
    case True
    then show ?thesis
      using n1 by (simp add: process_entries_Cons del: process_entries.simps)
  next
    case False
    then have "\<forall>e \<in> set (visited es). settled h ct (tree (env ?st1)) e"
      using Cons.prems(2) n1 by simp
    then show ?thesis
      using False n1 Cons.IH [OF c1]
      by (simp add: process_entries_Cons del: process_entries.simps)
  qed
qed

subsection \<open>Idempotence\<close>

text \<open>
  Claim C2. Run the loop over an archive from a fresh loop state, and then run it again
  over the same archive on the vault that the first run left (whatever the trace says by
  then): the second run increments \<^verbatim>\<open>fileCount\<close> not once and leaves the tree exactly
  as the first run left it. The host is arbitrary but fixed: its verdict on a creation
  depends on the path alone.
\<close>

theorem extraction_idempotent:
  assumes "process_entries h cleanTargetFolderPath
             \<lparr>env = w, fileCount = 0, folderPathsCreated = {}\<rparr> files = (thrown1, st1)"
    and "tree w2 = tree (env st1)"
    and "process_entries h cleanTargetFolderPath
             \<lparr>env = w2, fileCount = 0, folderPathsCreated = {}\<rparr> files = (thrown2, st2)"
  shows "fileCount st2 = 0 \<and> tree (env st2) = tree (env st1)"
proof -
  let ?s0 = "\<lparr>env = w, fileCount = 0, folderPathsCreated = {}\<rparr>"
  let ?s1 = "\<lparr>env = w2, fileCount = 0, folderPathsCreated = {}\<rparr>"
  have c0: "dirs_confirmed ?s0" and c1: "dirs_confirmed ?s1"
    by (simp_all add: dirs_confirmed_def)
  have "\<forall>e \<in> set (visited files).
          settled h cleanTargetFolderPath
            (tree (env (snd (process_entries h cleanTargetFolderPath ?s0 files)))) e"
    using run_settles [OF c0] by blast
  then have "\<forall>e \<in> set (visited files). settled h cleanTargetFolderPath (tree (env ?s1)) e"
    using assms(1,2) by simp
  then have "tree (env (snd (process_entries h cleanTargetFolderPath ?s1 files))) = tree (env ?s1)
             \<and> fileCount (snd (process_entries h cleanTargetFolderPath ?s1 files)) = fileCount ?s1"
    by (rule run_noop [OF c1])
  then show ?thesis
    using assms(2,3) by simp
qed

text \<open>Evaluating the model on concrete inputs.\<close>

lemmas eval_defs =
  process_entry_def is_metadata_def metadata_log_def startsWith_def endsWith_def
  normalizedDestPath_of_def replace_backslashes_def dirPath_of_def parentPath_of_def
  pathToCheck_of_def lastIndexOf_def strip_slashes_def handle_directory_def handle_file_def
  ensure_parent_def write_file_def ensureFolderExists_def getAbstractFileByPath_def
  createFolder_def createBinary_def emit_def Let_def

text \<open>The first run of the specification's end-to-end example writes one file.\<close>

lemma demo_first_run:
  "fst (process_entries demo_host ''Course Modules'' demo_state demo_files) = None
   \<and> fileCount (snd (process_entries demo_host ''Course Modules'' demo_state demo_files)) = 1
   \<and> folderPathsCreated (snd (process_entries demo_host ''Course Modules'' demo_state demo_files))
       = {''Course Modules/week1''}
   \<and> tree (env (snd (process_entries demo_host ''Course Modules'' demo_state demo_files)))
       = [''Course Modules'' \<mapsto> TFolder, ''Course Modules/week1'' \<mapsto> TFolder,
          ''Course Modules/week1/slides.pdf'' \<mapsto> TFile [37, 80, 68, 70]]"
  by (simp add: demo_files_def demo_state_def demo_world_def demo_host_def eval_defs)

theorem extraction_idempotent_witness:
  "fileCount (snd (process_entries demo_host ''Course Modules''
                     \<lparr>env = demo_world, fileCount = 0, folderPathsCreated = {}\<rparr> demo_files)) = 1
   \<and> fileCount (snd (process_entries demo_host ''Course Modules''
         \<lparr>env = env (snd (process_entries demo_host ''Course Modules''
                              \<lparr>env = demo_world, fileCount = 0, folderPathsCreated = {}\<rparr>
                              demo_files)),
          fileCount = 0, folderPathsCreated = {}\<rparr> demo_files)) = 0
   \<and> tree (env (snd (process_entries demo_host ''Course Modules''
         \<lparr>env = env (snd (process_entries demo_host ''Course Modules''
                              \<lparr>env = demo_world, fileCount = 0, folderPathsCreated = {}\<rparr>
                              demo_files)),
          fileCount = 0, folderPathsCreated = {}\<rparr> demo_files)))
     = tree (env (snd (process_entries demo_host ''Course Modules''
                         \<lparr>env = demo_world, fileCount = 0, folderPathsCreated = {}\<rparr>
                         demo_files)))"
proof -
  let ?first = "process_entries demo_host ''Course Modules''
                  \<lparr>env = demo_world, fileCount = 0, folderPathsCreated = {}\<rparr> demo_files"
  let ?second = "process_entries demo_host ''Course Modules''
                   \<lparr>env = env (snd ?first), fileCount = 0, folderPathsCreated = {}\<rparr> demo_files"
  have a: "?first = (fst ?first, snd ?first)" by simp
  have b: "tree (env (snd ?first)) = tree (env (snd ?first))" by simp
  have c: "?second = (fst ?second, snd ?second)" by simp
  have d: "fileCount (snd ?first) = 1"
    using demo_first_run by (simp add: demo_state_def)
  show ?thesis
    using d extraction_idempotent [OF a b c] by blast
qed

subsection \<open>The set of ensured folders\<close>

lemma lastIndexOf_from_bound:
  "found < i + int (length s) \<Longrightarrow> lastIndexOf_from s c i found < i + int (length s)"
proof (induction s arbitrary: i found)
  case Nil
  then show ?case by simp
next
  case (Cons x xs)
  have "(if x = c then i else found) < (i + 1) + int (length xs)"
    using Cons.prems by auto
  then have "lastIndexOf_from xs c (i + 1) (if x = c then i else found) < (i + 1) + int (length xs)"
    by (rule Cons.IH)
  then show ?case by simp
qed

lemma lastIndexOf_less: "s \<noteq> [] \<Longrightarrow> lastIndexOf s c < int (length s)"
  using lastIndexOf_from_bound [of "- 1" 0 s c] by (cases s) (simp_all add: lastIndexOf_def)

text \<open>
  The path checked for a file is never the (stripped) path of the file's parent
  directory: it is longer.
\<close>

lemma pathToCheck_not_parent:
  assumes "pathToCheck_of d \<noteq> ''''"
  shows "pathToCheck_of d \<noteq> strip_slashes (parentPath_of d)"
proof (cases "lastIndexOf d slash > 0")
  case False
  then have "strip_slashes (parentPath_of d) = ''''"
    by (auto simp: parentPath_of_def strip_slashes_def startsWith_def endsWith_def Let_def)
  then show ?thesis using assms by simp
next
  case True
  have ne: "d \<noteq> []" using assms by (auto simp: pathToCheck_of_def startsWith_def)
  let ?k = "nat (lastIndexOf d slash)"
  have k: "0 < ?k" "?k < length d"
    using True lastIndexOf_less [OF ne, of slash] by auto
  have pp: "parentPath_of d = take ?k d"
    using True by (simp add: parentPath_of_def Let_def)
  have hd: "startsWith (take ?k d) ''/'' \<longleftrightarrow> startsWith d ''/''"
    using k by (cases d) (auto simp: startsWith_def take_Suc_conv_app_nth)
  have l1: "length (strip_slashes (take ?k d)) \<le> ?k - (if startsWith d ''/'' then 1 else 0)"
    using k hd by (auto simp: strip_slashes_def Let_def)
  have l2: "length (pathToCheck_of d) = length d - (if startsWith d ''/'' then 1 else 0)"
    by (simp add: pathToCheck_of_def)
  have "length (strip_slashes (parentPath_of d)) < length (pathToCheck_of d)"
    using l1 l2 k pp by (auto split: if_splits)
  then show ?thesis by auto
qed

lemma write_file_calls:
  assumes "ev \<in> set (new_events (env st) (env (write_file h st d fileData)))"
    and "is_vault_call ev"
  shows "(ev = GetAbstractFileByPath (pathToCheck_of d) \<and> pathToCheck_of d \<noteq> '''')
         \<or> ev = CreateBinary d fileData"
  using assms
  by (auto simp: write_file_def getAbstractFileByPath_def createBinary_def Let_def
                 new_events_def is_vault_call_def
           split: option.splits node.splits prod.splits if_splits)

text \<open>
  Claim C9. At the end of a run that started with the empty set (hence at every moment of
  a run, each moment being the end of the run over a prefix of the archive), every path in
  \<^verbatim>\<open>folderPathsCreated\<close> denotes a directory of the vault. From such a state, a
  directory entry whose path is in the set changes nothing and emits no event, and a file
  entry whose parent path is in the set issues no \<^verbatim>\<open>createFolder\<close> call and no
  lookup of the parent path.
\<close>

theorem created_directory_set_invariant:
  assumes "process_entries h cleanTargetFolderPath
             \<lparr>env = w, fileCount = 0, folderPathsCreated = {}\<rparr> files = (thrown, st)"
  shows "(\<forall>p \<in> folderPathsCreated st. is_directory (tree (env st)) p)
         \<and> (\<forall>zipEntry. \<not> is_metadata (name zipEntry) \<and> dir zipEntry
               \<and> dirPath_of (normalizedDestPath_of cleanTargetFolderPath (name zipEntry))
                    \<in> folderPathsCreated st
              \<longrightarrow> process_entry h cleanTargetFolderPath st zipEntry = (None, st))
         \<and> (\<forall>zipEntry. \<not> is_metadata (name zipEntry) \<and> \<not> dir zipEntry
               \<and> parentPath_of (normalizedDestPath_of cleanTargetFolderPath (name zipEntry))
                    \<in> folderPathsCreated st
              \<longrightarrow> (\<forall>ev \<in> set (new_events (env st)
                                  (env (snd (process_entry h cleanTargetFolderPath st zipEntry)))).
                     (\<forall>q. ev \<noteq> CreateFolder q)
                     \<and> ev \<noteq> GetAbstractFileByPath
                              (strip_slashes (parentPath_of
                                 (normalizedDestPath_of cleanTargetFolderPath (name zipEntry))))))"
proof (intro conjI allI impI)
  have "dirs_confirmed (snd (process_entries h cleanTargetFolderPath
                               \<lparr>env = w, fileCount = 0, folderPathsCreated = {}\<rparr> files))"
    by (rule process_entries_confirmed) (simp add: dirs_confirmed_def)
  then show "\<forall>p \<in> folderPathsCreated st. is_directory (tree (env st)) p"
    using assms by (simp add: dirs_confirmed_def)
next
  fix zipEntry :: zip_object
  assume "\<not> is_metadata (name zipEntry) \<and> dir zipEntry
          \<and> dirPath_of (normalizedDestPath_of cleanTargetFolderPath (name zipEntry))
               \<in> folderPathsCreated st"
  then show "process_entry h cleanTargetFolderPath st zipEntry = (None, st)"
    by (simp add: process_entry_def Let_def handle_directory_skip)
next
  fix zipEntry :: zip_object
  let ?d = "normalizedDestPath_of cleanTargetFolderPath (name zipEntry)"
  assume a: "\<not> is_metadata (name zipEntry) \<and> \<not> dir zipEntry
             \<and> parentPath_of ?d \<in> folderPathsCreated st"
  then have skip: "ensure_parent h cleanTargetFolderPath st ?d = (True, st)"
    by (simp add: ensure_parent_skip)
  show "\<forall>ev \<in> set (new_events (env st)
                      (env (snd (process_entry h cleanTargetFolderPath st zipEntry)))).
          (\<forall>q. ev \<noteq> CreateFolder q)
          \<and> ev \<noteq> GetAbstractFileByPath (strip_slashes (parentPath_of ?d))"
  proof (cases "async_arraybuffer zipEntry")
    case (Inl err)
    then show ?thesis
      using a by (simp add: process_entry_def handle_file_def Let_def new_events_def)
  next
    case (Inr fileData)
    then have step: "snd (process_entry h cleanTargetFolderPath st zipEntry)
                       = write_file h st ?d fileData"
      using a skip by (simp add: process_entry_def handle_file_def Let_def)
    show ?thesis
    proof
      fix ev
      assume ev: "ev \<in> set (new_events (env st)
                              (env (snd (process_entry h cleanTargetFolderPath st zipEntry))))"
      show "(\<forall>q. ev \<noteq> CreateFolder q)
            \<and> ev \<noteq> GetAbstractFileByPath (strip_slashes (parentPath_of ?d))"
      proof (cases "is_vault_call ev")
        case False
        then show ?thesis by (auto simp: is_vault_call_def)
      next
        case True
        then have "(ev = GetAbstractFileByPath (pathToCheck_of ?d) \<and> pathToCheck_of ?d \<noteq> '''')
                   \<or> ev = CreateBinary ?d fileData"
          using ev write_file_calls [of ev st h ?d fileData] by (simp add: step)
        then show ?thesis
          using pathToCheck_not_parent [of ?d] by auto
      qed
    qed
  qed
qed

lemma demo_after_fields:
  "folderPathsCreated demo_after = {''Course Modules/week1''}"
  "fileCount demo_after = 1"
  "tree (env demo_after)
     = [''Course Modules'' \<mapsto> TFolder, ''Course Modules/week1'' \<mapsto> TFolder,
        ''Course Modules/week1/slides.pdf'' \<mapsto> TFile [37, 80, 68, 70]]"
  using demo_first_run by (simp_all add: demo_after_def)

theorem created_directory_set_invariant_witness:
  "folderPathsCreated demo_after = {''Course Modules/week1''}
   \<and> is_directory (tree (env demo_after)) ''Course Modules/week1''
   \<and> dirPath_of (normalizedDestPath_of ''Course Modules'' ''week1/'') = ''Course Modules/week1''
   \<and> process_entry demo_host ''Course Modules'' demo_after
         \<lparr>name = ''week1/'', dir = True, async_arraybuffer = Inr []\<rparr> = (None, demo_after)
   \<and> parentPath_of (normalizedDestPath_of ''Course Modules'' ''week1/notes.md'')
       = ''Course Modules/week1''
   \<and> filter is_vault_call
        (new_events (env demo_after)
           (env (snd (process_entry demo_host ''Course Modules'' demo_after
                        \<lparr>name = ''week1/notes.md'', dir = False, async_arraybuffer = Inr [35]\<rparr>))))
       = [GetAbstractFileByPath ''Course Modules/week1/notes.md'',
          CreateBinary ''Course Modules/week1/notes.md'' [35]]"
proof -
  have run: "process_entries demo_host ''Course Modules''
               \<lparr>env = demo_world, fileCount = 0, folderPathsCreated = {}\<rparr> demo_files
             = (fst (process_entries demo_host ''Course Modules'' demo_state demo_files), demo_after)"
    by (simp add: demo_after_def demo_state_def)
  note inv = created_directory_set_invariant [OF run]
  have d1: "dirPath_of (normalizedDestPath_of ''Course Modules'' ''week1/'') = ''Course Modules/week1''"
    by (simp add: eval_defs)
  have d2: "parentPath_of (normalizedDestPath_of ''Course Modules'' ''week1/notes.md'')
              = ''Course Modules/week1''"
    by (simp add: eval_defs)
  have m1: "\<not> is_metadata ''week1/''"
    by (simp add: eval_defs)
  have a: "is_directory (tree (env demo_after)) ''Course Modules/week1''"
    using inv demo_after_fields(1) by simp
  have b: "process_entry demo_host ''Course Modules'' demo_after
             \<lparr>name = ''week1/'', dir = True, async_arraybuffer = Inr []\<rparr> = (None, demo_after)"
    using inv d1 m1 demo_after_fields(1) by simp
  have c: "filter is_vault_call
        (new_events (env demo_after)
           (env (snd (process_entry demo_host ''Course Modules'' demo_after
                        \<lparr>name = ''week1/notes.md'', dir = False, async_arraybuffer = Inr [35]\<rparr>))))
       = [GetAbstractFileByPath ''Course Modules/week1/notes.md'',
          CreateBinary ''Course Modules/week1/notes.md'' [35]]"
    by (simp add: demo_after_fields demo_host_def new_events_def is_vault_call_def eval_defs)
  show ?thesis
    using a b c d1 d2 demo_after_fields(1) by simp
qed

subsection \<open>Events of one iteration\<close>

lemma new_events_append [simp]: "trace w' = trace w @ evs \<Longrightarrow> new_events w w' = evs"
  by (simp add: new_events_def)

lemma ensure_no_write:
  assumes "ev \<in> set (new_events w (snd (ensureFolderExists h w p)))"
  shows "ev \<noteq> CreateBinary q b"
  using assms
  by (auto simp: ensureFolderExists_def getAbstractFileByPath_def createFolder_def Let_def
                 new_events_def
           split: option.splits node.splits folder_outcome.splits prod.splits if_splits)

lemma ensure_parent_no_write:
  assumes "ev \<in> set (new_events (env st) (env (snd (ensure_parent h ct st d))))"
  shows "ev \<noteq> CreateBinary q b"
proof (cases "parentPath_of d \<noteq> '''' \<and> parentPath_of d \<noteq> ct
              \<and> parentPath_of d \<notin> folderPathsCreated st")
  case False
  then show ?thesis using assms by (simp add: ensure_parent_skip new_events_def)
next
  case True
  obtain r w1 where e: "ensureFolderExists h (env st) (parentPath_of d) = (r, w1)"
    by (cases "ensureFolderExists h (env st) (parentPath_of d)")
  obtain evs where t: "trace w1 = trace (env st) @ evs"
    using ensureD(4) [OF e] by blast
  have n: "\<And>x. x \<in> set evs \<Longrightarrow> x \<noteq> CreateBinary q b"
    using ensure_no_write [of _ "env st" h "parentPath_of d" q b] e t by simp
  show ?thesis
    using assms True e t n
    by (cases r) (auto simp: ensure_parent_def Let_def)
qed

text \<open>
  When the parent path needs no work (it is empty, the target itself, remembered, or a
  directory of the tree), ensuring it succeeds, changes nothing and at most looks it up.
\<close>

lemma ensure_parent_directory:
  assumes "parentPath_of d = '''' \<or> parentPath_of d = ct
           \<or> parentPath_of d \<in> folderPathsCreated st
           \<or> is_directory (tree (env st)) (parentPath_of d)"
  shows "\<exists>st1. ensure_parent h ct st d = (True, st1)
           \<and> tree (env st1) = tree (env st) \<and> fileCount st1 = fileCount st
           \<and> (trace (env st1) = trace (env st)
              \<or> trace (env st1) = trace (env st)
                   @ [GetAbstractFileByPath (strip_slashes (parentPath_of d))])"
proof (cases "parentPath_of d \<noteq> '''' \<and> parentPath_of d \<noteq> ct
              \<and> parentPath_of d \<notin> folderPathsCreated st")
  case False
  then show ?thesis by (simp add: ensure_parent_skip)
next
  case True
  then have "is_directory (tree (env st)) (parentPath_of d)"
    using assms by simp
  then show ?thesis
    using True ensure_directory [of "env st" "parentPath_of d" h]
    by (auto simp: ensure_parent_def Let_def)
qed

lemma write_file_existing_file:
  assumes "pathToCheck_of d \<noteq> ''''" and "tree (env st) (pathToCheck_of d) = Some (TFile b)"
  shows "write_file h st d fileData =
           st\<lparr>env := emit (env st)
                  [GetAbstractFileByPath (pathToCheck_of d),
                   ConsoleLog (''Skipping extraction for existing file: '' @ d)]\<rparr>"
  using assms by (simp add: write_file_def getAbstractFileByPath_def emit_def Let_def)

lemma write_file_existing_folder:
  assumes "pathToCheck_of d \<noteq> ''''" and "tree (env st) (pathToCheck_of d) = Some TFolder"
  shows "write_file h st d fileData =
           st\<lparr>env := emit (env st)
                  [GetAbstractFileByPath (pathToCheck_of d),
                   ConsoleError (''Skipping file write: A folder exists at path '' @ d) [],
                   Notice (''Skipping file write: Folder exists at '' @ d)]\<rparr>"
  using assms by (simp add: write_file_def getAbstractFileByPath_def emit_def Let_def)

lemma grows_keeps: "grows h t t' \<Longrightarrow> t k = Some v \<Longrightarrow> t' k = Some v"
  by (simp add: grows_def)

subsection \<open>Existing files are never replaced\<close>

text \<open>
  Claim C3. Take a file entry whose data can be read and whose checked destination path
  holds a file. Processing it ends without an error and without incrementing
  \<^verbatim>\<open>fileCount\<close>; no \<^verbatim>\<open>createBinary\<close> call is made; every file of the vault keeps
  its bytes, and the file at the destination still has them after the rest of the run,
  whatever the entry's data is. When the parent path needs no work, the entry is skipped
  silently: the tree is unchanged, the last event is the console line
  \<^verbatim>\<open>Skipping extraction for existing file\<close>, and there is no warning.
\<close>

theorem existing_file_never_clobbered:
  assumes "\<not> is_metadata (name zipEntry)" and "\<not> dir zipEntry"
    and "async_arraybuffer zipEntry = Inr fileData"
    and "d = normalizedDestPath_of cleanTargetFolderPath (name zipEntry)"
    and "pathToCheck_of d \<noteq> ''''"
    and "tree (env st) (pathToCheck_of d) = Some (TFile oldData)"
    and "process_entry h cleanTargetFolderPath st zipEntry = (thrown, st')"
  shows "thrown = None \<and> fileCount st' = fileCount st
         \<and> (\<forall>ev \<in> set (new_events (env st) (env st')). \<forall>q b. ev \<noteq> CreateBinary q b)
         \<and> (\<forall>p b. tree (env st) p = Some (TFile b) \<longrightarrow> tree (env st') p = Some (TFile b))
         \<and> (\<forall>files. tree (env (snd (process_entries h cleanTargetFolderPath st' files)))
                       (pathToCheck_of d) = Some (TFile oldData))
         \<and> (parentPath_of d = '''' \<or> parentPath_of d = cleanTargetFolderPath
              \<or> parentPath_of d \<in> folderPathsCreated st
              \<or> is_directory (tree (env st)) (parentPath_of d)
            \<longrightarrow> tree (env st') = tree (env st)
                \<and> last (trace (env st'))
                    = ConsoleLog (''Skipping extraction for existing file: '' @ d)
                \<and> \<not> (\<exists>ev \<in> set (new_events (env st) (env st')). is_warning ev))"
proof -
  let ?ct = cleanTargetFolderPath
  obtain ok st1 where ep: "ensure_parent h ?ct st d = (ok, st1)"
    by (cases "ensure_parent h ?ct st d")
  have g1: "grows h (tree (env st)) (tree (env st1))"
    using ensure_parent_grows [of h st ?ct d] ep by simp
  have c1: "fileCount st1 = fileCount st"
    using ensure_parent_count [of h ?ct st d] ep by simp
  obtain evs1 where t1: "trace (env st1) = trace (env st) @ evs1"
    using ensure_parent_trace [of h ?ct st d] ep by auto
  have n1: "\<And>ev q b. ev \<in> set evs1 \<Longrightarrow> ev \<noteq> CreateBinary q b"
    using ensure_parent_no_write [of _ st h ?ct d] ep t1 by simp
  have f1: "tree (env st1) (pathToCheck_of d) = Some (TFile oldData)"
    using grows_keeps [OF g1 assms(6)] .
  have wf: "write_file h st1 d fileData =
              st1\<lparr>env := emit (env st1)
                     [GetAbstractFileByPath (pathToCheck_of d),
                      ConsoleLog (''Skipping extraction for existing file: '' @ d)]\<rparr>"
    using write_file_existing_file [OF assms(5) f1] .
  have step: "thrown = None
              \<and> st' = (if ok then write_file h st1 d fileData else st1)"
    using assms(1,2,3,4,7) ep by (auto simp: process_entry_def handle_file_def Let_def)
  have tr: "tree (env st') = tree (env st1)"
    using step wf by simp
  have ev': "set (new_events (env st) (env st'))
               \<subseteq> set evs1 \<union> {GetAbstractFileByPath (pathToCheck_of d),
                                ConsoleLog (''Skipping extraction for existing file: '' @ d)}"
    using step wf t1 by (auto simp: new_events_def)
  have keep: "\<And>p b. tree (env st) p = Some (TFile b) \<Longrightarrow> tree (env st') p = Some (TFile b)"
    using grows_keeps [OF g1] tr by simp
  have rest: "\<And>files. tree (env (snd (process_entries h ?ct st' files))) (pathToCheck_of d)
                          = Some (TFile oldData)"
    using grows_keeps [OF process_entries_grows] keep [OF assms(6)] by blast
  have quiet: "tree (env st') = tree (env st)
               \<and> last (trace (env st')) = ConsoleLog (''Skipping extraction for existing file: '' @ d)
               \<and> \<not> (\<exists>ev \<in> set (new_events (env st) (env st')). is_warning ev)"
    if par: "parentPath_of d = '''' \<or> parentPath_of d = ?ct
             \<or> parentPath_of d \<in> folderPathsCreated st
             \<or> is_directory (tree (env st)) (parentPath_of d)"
  proof -
    obtain st2 where p: "ensure_parent h ?ct st d = (True, st2)"
        "tree (env st2) = tree (env st)"
        "trace (env st2) = trace (env st)
         \<or> trace (env st2) = trace (env st)
              @ [GetAbstractFileByPath (strip_slashes (parentPath_of d))]"
      using ensure_parent_directory [OF par, of h] by blast
    have ok: "ok" and st12: "st1 = st2" using ep p(1) by simp_all
    have st'w: "st' = write_file h st1 d fileData" using step ok by simp
    show ?thesis
      using p(2,3) st12 st'w wf t1
      by (auto simp: new_events_def is_warning_def)
  qed
  have cnt: "fileCount st' = fileCount st"
    using step wf c1 by (cases ok) simp_all
  have nw: "\<forall>ev \<in> set (new_events (env st) (env st')). \<forall>q b. ev \<noteq> CreateBinary q b"
    using ev' n1 by blast
  have keep': "\<forall>p b. tree (env st) p = Some (TFile b) \<longrightarrow> tree (env st') p = Some (TFile b)"
    using keep by blast
  have rest': "\<forall>files. tree (env (snd (process_entries h ?ct st' files))) (pathToCheck_of d)
                          = Some (TFile oldData)"
    using rest by blast
  show ?thesis
    using step cnt nw keep' rest' quiet by blast
qed

theorem existing_file_never_clobbered_witness:
  "\<not> is_metadata (name slides_entry) \<and> \<not> dir slides_entry
   \<and> async_arraybuffer slides_entry = Inr [37, 80, 68, 70]
   \<and> pathToCheck_of (normalizedDestPath_of ''Course Modules'' (name slides_entry))
       = ''Course Modules/week1/slides.pdf''
   \<and> tree (env occupied_state) ''Course Modules/week1/slides.pdf'' = Some (TFile [1, 2, 3])
   \<and> is_directory (tree (env occupied_state))
        (parentPath_of (normalizedDestPath_of ''Course Modules'' (name slides_entry)))
   \<and> fst (process_entry demo_host ''Course Modules'' occupied_state slides_entry) = None
   \<and> fileCount (snd (process_entry demo_host ''Course Modules'' occupied_state slides_entry)) = 0
   \<and> tree (env (snd (process_entry demo_host ''Course Modules'' occupied_state slides_entry)))
       = tree (env occupied_state)
   \<and> last (trace (env (snd (process_entry demo_host ''Course Modules'' occupied_state
                              slides_entry))))
       = ConsoleLog ''Skipping extraction for existing file: Course Modules/week1/slides.pdf''
   \<and> tree (env (snd (process_entries demo_host ''Course Modules''
                        (snd (process_entry demo_host ''Course Modules'' occupied_state
                                slides_entry))
                        demo_files)))
        ''Course Modules/week1/slides.pdf'' = Some (TFile [1, 2, 3])"
proof -
  let ?d = "normalizedDestPath_of ''Course Modules'' (name slides_entry)"
  let ?step = "process_entry demo_host ''Course Modules'' occupied_state slides_entry"
  have d: "?d = ''Course Modules/week1/slides.pdf''"
    by (simp add: slides_entry_def eval_defs)
  have a1: "\<not> is_metadata (name slides_entry)"
    by (simp add: slides_entry_def eval_defs)
  have a2: "\<not> dir slides_entry"
    by (simp add: slides_entry_def)
  have a3: "async_arraybuffer slides_entry = Inr [37, 80, 68, 70]"
    by (simp add: slides_entry_def)
  have a4: "?d = normalizedDestPath_of ''Course Modules'' (name slides_entry)"
    by simp
  have pc: "pathToCheck_of ?d = ''Course Modules/week1/slides.pdf''"
    unfolding d by (simp add: eval_defs)
  have a5: "pathToCheck_of ?d \<noteq> ''''"
    by (simp add: pc)
  have a6: "tree (env occupied_state) (pathToCheck_of ?d) = Some (TFile [1, 2, 3])"
    by (simp add: pc occupied_state_def occupied_world_def)
  have a7: "?step = (fst ?step, snd ?step)"
    by simp
  have par: "is_directory (tree (env occupied_state)) (parentPath_of ?d)"
    unfolding d by (simp add: is_directory_def occupied_state_def occupied_world_def eval_defs)
  note core = existing_file_never_clobbered [OF a1 a2 a3 a4 a5 a6 a7]
  have a6': "tree (env occupied_state) ''Course Modules/week1/slides.pdf'' = Some (TFile [1, 2, 3])"
    using a6 unfolding pc .
  have r1: "fst ?step = None"
    using core by blast
  have r2: "fileCount (snd ?step) = 0"
    using core by (simp add: occupied_state_def)
  have r3: "tree (env (snd ?step)) = tree (env occupied_state)"
    using core par by blast
  have "last (trace (env (snd ?step)))
          = ConsoleLog (''Skipping extraction for existing file: '' @ ?d)"
    using core par by blast
  then have r4: "last (trace (env (snd ?step)))
          = ConsoleLog ''Skipping extraction for existing file: Course Modules/week1/slides.pdf''"
    unfolding d by simp
  have "tree (env (snd (process_entries demo_host ''Course Modules'' (snd ?step) demo_files)))
          (pathToCheck_of ?d) = Some (TFile [1, 2, 3])"
    using core by blast
  then have r5: "tree (env (snd (process_entries demo_host ''Course Modules'' (snd ?step)
                                  demo_files)))
                   ''Course Modules/week1/slides.pdf'' = Some (TFile [1, 2, 3])"
    unfolding pc .
  show ?thesis
    using a1 a2 a3 pc a6' par r1 r2 r3 r4 r5 by blast
qed

subsection \<open>A folder where a file should go\<close>

text \<open>
  Claim C7. Take a file entry whose data can be read, whose checked destination path holds
  a folder, and whose parent path needs no work (as in any vault, where the parent of an
  existing folder is a folder). Processing it ends without an error, so the loop goes on
  with the next entry; it leaves the tree and \<^verbatim>\<open>fileCount\<close> unchanged, makes no
  \<^verbatim>\<open>createBinary\<close> call, and shows exactly one notice,
  \<^verbatim>\<open>Skipping file write: Folder exists at ...\<close>, for that path.
\<close>

theorem write_conflict_on_directory:
  assumes "\<not> is_metadata (name zipEntry)" and "\<not> dir zipEntry"
    and "async_arraybuffer zipEntry = Inr fileData"
    and "d = normalizedDestPath_of cleanTargetFolderPath (name zipEntry)"
    and "pathToCheck_of d \<noteq> ''''"
    and "tree (env st) (pathToCheck_of d) = Some TFolder"
    and "parentPath_of d = '''' \<or> parentPath_of d = cleanTargetFolderPath
         \<or> parentPath_of d \<in> folderPathsCreated st
         \<or> is_directory (tree (env st)) (parentPath_of d)"
    and "process_entry h cleanTargetFolderPath st zipEntry = (thrown, st')"
  shows "thrown = None
         \<and> process_entries h cleanTargetFolderPath st (zipEntry # files)
             = process_entries h cleanTargetFolderPath st' files
         \<and> fileCount st' = fileCount st
         \<and> tree (env st') = tree (env st)
         \<and> filter is_notice (new_events (env st) (env st'))
             = [Notice (''Skipping file write: Folder exists at '' @ d)]
         \<and> (\<forall>ev \<in> set (new_events (env st) (env st')). \<forall>q b. ev \<noteq> CreateBinary q b)"
proof -
  let ?ct = cleanTargetFolderPath
  obtain st1 where p: "ensure_parent h ?ct st d = (True, st1)"
      "tree (env st1) = tree (env st)" "fileCount st1 = fileCount st"
      "trace (env st1) = trace (env st)
       \<or> trace (env st1) = trace (env st)
            @ [GetAbstractFileByPath (strip_slashes (parentPath_of d))]"
    using ensure_parent_directory [OF assms(7), of h] by blast
  have f1: "tree (env st1) (pathToCheck_of d) = Some TFolder"
    using assms(6) p(2) by simp
  have wf: "write_file h st1 d fileData =
              st1\<lparr>env := emit (env st1)
                     [GetAbstractFileByPath (pathToCheck_of d),
                      ConsoleError (''Skipping file write: A folder exists at path '' @ d) [],
                      Notice (''Skipping file write: Folder exists at '' @ d)]\<rparr>"
    using write_file_existing_folder [OF assms(5) f1] .
  have step: "thrown = None \<and> st' = write_file h st1 d fileData"
    using assms(1,2,3,4,8) p(1) by (auto simp: process_entry_def handle_file_def Let_def)
  have go_on: "process_entries h ?ct st (zipEntry # files) = process_entries h ?ct st' files"
    using assms(8) step by simp
  have events: "new_events (env st) (env st')
                  = [GetAbstractFileByPath (pathToCheck_of d),
                     ConsoleError (''Skipping file write: A folder exists at path '' @ d) [],
                     Notice (''Skipping file write: Folder exists at '' @ d)]
                \<or> new_events (env st) (env st')
                  = [GetAbstractFileByPath (strip_slashes (parentPath_of d)),
                     GetAbstractFileByPath (pathToCheck_of d),
                     ConsoleError (''Skipping file write: A folder exists at path '' @ d) [],
                     Notice (''Skipping file write: Folder exists at '' @ d)]"
    using step wf p(4) by (auto simp: new_events_def)
  have notices: "filter is_notice (new_events (env st) (env st'))
                   = [Notice (''Skipping file write: Folder exists at '' @ d)]"
    using events by (auto simp: is_notice_def)
  have no_write: "\<forall>ev \<in> set (new_events (env st) (env st')). \<forall>q b. ev \<noteq> CreateBinary q b"
    using events by auto
  have same: "fileCount st' = fileCount st \<and> tree (env st') = tree (env st)"
    using step wf p(2,3) by simp
  show ?thesis
    using step go_on same notices no_write by blast
qed

theorem write_conflict_on_directory_witness:
  "\<not> is_metadata (name notes_entry) \<and> \<not> dir notes_entry
   \<and> async_arraybuffer notes_entry = Inr [35, 32, 104, 105]
   \<and> pathToCheck_of (normalizedDestPath_of ''Course Modules'' (name notes_entry))
       = ''Course Modules/notes''
   \<and> tree (env occupied_state) ''Course Modules/notes'' = Some TFolder
   \<and> parentPath_of (normalizedDestPath_of ''Course Modules'' (name notes_entry))
       = ''Course Modules''
   \<and> fst (process_entry demo_host ''Course Modules'' occupied_state notes_entry) = None
   \<and> fileCount (snd (process_entry demo_host ''Course Modules'' occupied_state notes_entry)) = 0
   \<and> tree (env (snd (process_entry demo_host ''Course Modules'' occupied_state notes_entry)))
       = tree (env occupied_state)
   \<and> filter is_notice
        (new_events (env occupied_state)
           (env (snd (process_entry demo_host ''Course Modules'' occupied_state notes_entry))))
       = [Notice ''Skipping file write: Folder exists at Course Modules/notes'']"
proof -
  let ?d = "normalizedDestPath_of ''Course Modules'' (name notes_entry)"
  let ?step = "process_entry demo_host ''Course Modules'' occupied_state notes_entry"
  have d: "?d = ''Course Modules/notes''"
    by (simp add: notes_entry_def eval_defs)
  have a1: "\<not> is_metadata (name notes_entry)"
    by (simp add: notes_entry_def eval_defs)
  have a2: "\<not> dir notes_entry"
    by (simp add: notes_entry_def)
  have a3: "async_arraybuffer notes_entry = Inr [35, 32, 104, 105]"
    by (simp add: notes_entry_def)
  have a4: "?d = normalizedDestPath_of ''Course Modules'' (name notes_entry)"
    by simp
  have pc: "pathToCheck_of ?d = ''Course Modules/notes''"
    unfolding d by (simp add: eval_defs)
  have a5: "pathToCheck_of ?d \<noteq> ''''"
    by (simp add: pc)
  have a6: "tree (env occupied_state) (pathToCheck_of ?d) = Some TFolder"
    by (simp add: pc occupied_state_def occupied_world_def)
  have pp: "parentPath_of ?d = ''Course Modules''"
    unfolding d by (simp add: eval_defs)
  have a7: "parentPath_of ?d = '''' \<or> parentPath_of ?d = ''Course Modules''
            \<or> parentPath_of ?d \<in> folderPathsCreated occupied_state
            \<or> is_directory (tree (env occupied_state)) (parentPath_of ?d)"
    by (simp add: pp)
  have a8: "?step = (fst ?step, snd ?step)"
    by simp
  note core = write_conflict_on_directory [OF a1 a2 a3 a4 a5 a6 a7 a8]
  have a6': "tree (env occupied_state) ''Course Modules/notes'' = Some TFolder"
    using a6 unfolding pc .
  have r1: "fst ?step = None"
    using core by blast
  have r2: "fileCount (snd ?step) = 0"
    using core by (simp add: occupied_state_def)
  have r3: "tree (env (snd ?step)) = tree (env occupied_state)"
    using core by blast
  have "filter is_notice (new_events (env occupied_state) (env (snd ?step)))
          = [Notice (''Skipping file write: Folder exists at '' @ ?d)]"
    using core by blast
  then have r4: "filter is_notice (new_events (env occupied_state) (env (snd ?step)))
          = [Notice ''Skipping file write: Folder exists at Course Modules/notes'']"
    unfolding d by simp
  show ?thesis
    using a1 a2 a3 pc a6' pp r1 r2 r3 r4 by blast
qed

subsection \<open>Failures of single entries\<close>





















subsection \<open>Parent-directory segments in entry names\<close>

lemma split_nonempty: "split s sep \<noteq> []"
  by (induction s) (auto split: list.splits)

lemma split_hd_tl: "split s sep = hd (split s sep) # tl (split s sep)"
  using split_nonempty [of s sep] by simp

lemma split_append: "split (a @ sep # b) sep = split a sep @ split b sep"
proof (induction a)
  case Nil
  then show ?case by simp
next
  case (Cons c a)
  show ?case
  proof (cases "c = sep")
    case True
    then show ?thesis using Cons by simp
  next
    case False
    obtain s ss where sp: "split a sep = s # ss"
      using split_nonempty [of a sep] by (cases "split a sep") auto
    show ?thesis
      using False Cons sp by simp
  qed
qed

lemma climb_append:
  "climb stack (xs @ ys) = (case climb stack xs of None \<Rightarrow> None | Some st \<Rightarrow> climb st ys)"
  by (induction xs arbitrary: stack) (auto split: list.splits)

lemma climb_base:
  "climb stack segments = Some st \<Longrightarrow> climb (stack @ base) segments = Some (st @ base)"
proof (induction segments arbitrary: stack)
  case Nil
  then show ?case by simp
next
  case (Cons segment segments)
  show ?case
  proof (cases "segment = '''' \<or> segment = ''.''")
    case True
    then show ?thesis using Cons by auto
  next
    case False
    note plain = this
    show ?thesis
    proof (cases "segment = ''..''")
      case True
      then obtain x up where st: "stack = x # up" and c: "climb up segments = Some st"
        using Cons.prems by (cases stack) auto
      show ?thesis
        using True st Cons.IH [OF c] by simp
    next
      case False
      then have "climb (segment # stack) segments = Some st"
        using plain Cons.prems by simp
      then have "climb ((segment # stack) @ base) segments = Some (st @ base)"
        by (rule Cons.IH)
      then show ?thesis using plain False by simp
    qed
  qed
qed

lemma climb_cong_tail:
  assumes "\<And>st. climb st xs = climb st ys"
  shows "climb stack (x # xs) = climb stack (x # ys)"
  using assms by (auto split: list.splits)

text \<open>Collapsing runs of slashes only removes empty segments, which the walk skips.\<close>

lemma collapse_segments:
  "hd (split (collapse_slashes s) slash) = hd (split s slash)
   \<and> (\<forall>st. climb st (tl (split (collapse_slashes s) slash)) = climb st (tl (split s slash)))"
proof (induction s rule: collapse_slashes.induct)
  case (1 a b cs)
  show ?case
  proof (cases "a = slash \<and> b = slash")
    case True
    have ih: "hd (split (collapse_slashes (b # cs)) slash) = hd (split (b # cs) slash)"
        "\<And>st. climb st (tl (split (collapse_slashes (b # cs)) slash))
                = climb st (tl (split (b # cs) slash))"
      using 1(1) [OF True] by simp_all
    have h: "hd (split (collapse_slashes (b # cs)) slash) = []"
      using ih(1) True by simp
    have t: "\<And>st. climb st (tl (split (collapse_slashes (b # cs)) slash))
                  = climb st (split cs slash)"
      using ih(2) True by simp
    show ?thesis
      using True h t by simp
  next
    case False
    have ih: "hd (split (collapse_slashes (b # cs)) slash) = hd (split (b # cs) slash)"
        "\<And>st. climb st (tl (split (collapse_slashes (b # cs)) slash))
                = climb st (tl (split (b # cs) slash))"
      using 1(2) [OF False] by simp_all
    obtain h1 t1 where s1: "split (collapse_slashes (b # cs)) slash = h1 # t1"
      using split_hd_tl by blast
    obtain h2 t2 where s2: "split (b # cs) slash = h2 # t2"
      using split_hd_tl by blast
    have hh: "h1 = h2" and tt: "\<And>st. climb st t1 = climb st t2"
      using ih s1 s2 by simp_all
    have c: "collapse_slashes (a # b # cs) = a # collapse_slashes (b # cs)"
      using False by simp
    show ?thesis
    proof (cases "a = slash")
      case True
      have "\<And>st. climb st (h1 # t1) = climb st (h2 # t2)"
        unfolding hh using tt by (rule climb_cong_tail)
      then show ?thesis
        unfolding c using True s1 s2 by simp
    next
      case False
      then show ?thesis
        unfolding c using s1 s2 hh tt by simp
    qed
  qed
qed simp_all

lemma climb_collapse:
  "climb stack (split (collapse_slashes s) slash) = climb stack (split s slash)"
proof -
  have "climb stack (hd (split (collapse_slashes s) slash) # tl (split (collapse_slashes s) slash))
          = climb stack (hd (split s slash) # tl (split s slash))"
    using collapse_segments [of s] climb_cong_tail by metis
  then show ?thesis
    using split_hd_tl [of "collapse_slashes s" slash] split_hd_tl [of s slash] by simp
qed

lemma location_collapse: "location (collapse_slashes s) = location s"
  by (simp add: location_def climb_collapse)

lemma replace_backslashes_id: "backslash \<notin> set s \<Longrightarrow> replace_backslashes s = s"
  by (induction s) (auto simp: replace_backslashes_def)

lemma location_empty: "location '''' = Some []"
  by (simp add: location_def)

text \<open>A path without \<^verbatim>\<open>..\<close> segments never climbs.\<close>

lemma climb_without_parent_segments:
  "''..'' \<notin> set segments \<Longrightarrow> climb stack segments \<noteq> None"
  by (induction segments arbitrary: stack) auto

lemma location_without_parent_segments:
  "''..'' \<notin> set (split p slash) \<Longrightarrow> location p \<noteq> None"
  by (simp add: location_def climb_without_parent_segments)

text \<open>
  Claim C1, as the code has it. The resolver has no check for \<^verbatim>\<open>..\<close>: it prefixes
  the target path, turns backslashes into slashes and collapses runs of slashes, and keeps
  every \<^verbatim>\<open>..\<close> segment. The destination stays inside the target's subtree when the
  entry's own path never climbs above its starting directory (as when it has no
  \<^verbatim>\<open>..\<close> segment), for a target path that has no backslash and does not itself
  climb above the vault's root.
\<close>

theorem destination_inside_target:
  assumes "location cleanTargetFolderPath \<noteq> None"
    and "backslash \<notin> set cleanTargetFolderPath"
    and "location (replace_backslashes relativePath) \<noteq> None"
  shows "inside cleanTargetFolderPath
           (normalizedDestPath_of cleanTargetFolderPath relativePath)"
proof -
  let ?ct = cleanTargetFolderPath
  let ?rb = "replace_backslashes relativePath"
  obtain sr where r: "climb [] (split ?ct slash) = Some sr"
    using assms(1) by (auto simp: location_def)
  obtain sq where q: "climb [] (split ?rb slash) = Some sq"
    using assms(3) by (auto simp: location_def)
  have lr: "location ?ct = Some (rev sr)"
    using r by (simp add: location_def)
  show ?thesis
  proof (cases "?ct = ''''")
    case True
    then have "location (normalizedDestPath_of ?ct relativePath) = Some (rev sq)"
      using q by (simp add: normalizedDestPath_of_def location_collapse) (simp add: location_def)
    then show ?thesis
      using True by (simp add: inside_def location_empty)
  next
    case False
    have "replace_backslashes (?ct @ ''/'' @ relativePath) = ?ct @ slash # ?rb"
      using replace_backslashes_id [OF assms(2)] by (simp add: replace_backslashes_def)
    then have "location (normalizedDestPath_of ?ct relativePath)
                 = map_option rev (climb [] (split ?ct slash @ split ?rb slash))"
      using False
      by (simp add: normalizedDestPath_of_def location_collapse) (simp add: location_def split_append)
    also have "\<dots> = map_option rev (climb sr (split ?rb slash))"
      using r by (simp add: climb_append)
    also have "\<dots> = Some (rev (sq @ sr))"
      using climb_base [OF q, of sr] by simp
    finally have "location (normalizedDestPath_of ?ct relativePath) = Some (rev sr @ rev sq)"
      by simp
    then show ?thesis
      using lr by (simp add: inside_def)
  qed
qed

theorem destination_inside_target_witness:
  "location ''Course Modules'' \<noteq> None
   \<and> backslash \<notin> set ''Course Modules''
   \<and> location (replace_backslashes ''week1/../week2/intro.md'') \<noteq> None
   \<and> normalizedDestPath_of ''Course Modules'' ''week1/../week2/intro.md''
       = ''Course Modules/week1/../week2/intro.md''
   \<and> inside ''Course Modules'' ''Course Modules/week1/../week2/intro.md''"
proof -
  have a: "location ''Course Modules'' \<noteq> None"
    by (simp add: location_def)
  have b: "backslash \<notin> set ''Course Modules''"
    by simp
  have c: "location (replace_backslashes ''week1/../week2/intro.md'') \<noteq> None"
    by (simp add: location_def replace_backslashes_def)
  have d: "normalizedDestPath_of ''Course Modules'' ''week1/../week2/intro.md''
             = ''Course Modules/week1/../week2/intro.md''"
    by (simp add: normalizedDestPath_of_def replace_backslashes_def)
  show ?thesis
    using a b c d destination_inside_target [OF a b c] by simp
qed

text \<open>
  The claim as the specification states it fails: the entry \<^verbatim>\<open>../../escape.txt\<close>
  has \<^verbatim>\<open>..\<close> segments, is not dropped, and is resolved under the target
  \<^verbatim>\<open>Course Modules\<close> to a path that is not inside the target (it climbs above the
  vault's root); the file is created at that path.
\<close>

theorem path_safety_counterexample:
  "''..'' \<in> set (split (name escape_entry) slash)
   \<and> \<not> is_metadata (name escape_entry)
   \<and> normalizedDestPath_of ''Course Modules'' (name escape_entry)
       = ''Course Modules/../../escape.txt''
   \<and> \<not> inside ''Course Modules'' (normalizedDestPath_of ''Course Modules'' (name escape_entry))
   \<and> fst (process_entry demo_host ''Course Modules'' demo_state escape_entry) = None
   \<and> tree (env (snd (process_entry demo_host ''Course Modules'' demo_state escape_entry)))
        ''Course Modules/../../escape.txt'' = Some (TFile [33])"
  by (simp add: escape_entry_def inside_def location_def demo_state_def demo_world_def
                demo_host_def eval_defs)

section \<open>The whole command\<close>

text \<open>
  The properties above are about the loop and the stage around it. The lemmas of this
  section carry the two that concern the tree to \<^verbatim>\<open>downloadAndUnzip\<close> as a whole.
\<close>

lemma catch_unzip_error_tree [simp]: "tree (catch_unzip_error w thrown) = tree w"
  by (simp add: catch_unzip_error_def Let_def)

lemma unzip_and_write_tree:
  "tree (unzip_and_write h w targetFolder_path ct zipData) =
     (case loadAsync_result h zipData of
        Inl thrown \<Rightarrow> tree w
      | Inr files \<Rightarrow>
          tree (env (snd (process_entries h ct
                            \<lparr>env = emit w [LoadAsync zipData], fileCount = 0,
                              folderPathsCreated = {}\<rparr> files))))"
  by (auto simp: unzip_and_write_def split: sum.splits prod.splits option.splits)

lemma unzip_and_write_grows:
  "grows h (tree w) (tree (unzip_and_write h w targetFolder_path ct zipData))"
proof (cases "loadAsync_result h zipData")
  case (Inl thrown)
  then show ?thesis by (simp add: unzip_and_write_tree grows_refl)
next
  case (Inr files)
  then show ?thesis
    using process_entries_grows
            [of h "\<lparr>env = emit w [LoadAsync zipData], fileCount = 0, folderPathsCreated = {}\<rparr>"
                ct files]
    by (simp add: unzip_and_write_tree)
qed

text \<open>
  The tree after a failed decoding is the tree that ensuring the target folder
  (lines 319-326) left.
\<close>

lemma downloadAndUnzip_decode_failure:
  assumes "startsWith url ''http://'' \<or> startsWith url ''https://''"
    and "requestUrl_result h (dropbox_fix url) = Inr zipData"
    and "loadAsync_result h zipData = Inl thrown"
  shows "tree (downloadAndUnzip h targetFolderPath w url)
           = tree (snd (ensureFolderExists h w targetFolderPath))"
  using assms
  by (auto simp: downloadAndUnzip_def unzip_and_write_tree Let_def
           split: prod.splits option.splits)

text \<open>
  Decoding and extracting again, on any vault whose tree is the one the stage left,
  changes nothing.
\<close>

lemma unzip_and_write_again:
  assumes "tree w2 = tree (unzip_and_write h w targetFolder_path ct zipData)"
  shows "tree (unzip_and_write h w2 targetFolder_path ct zipData) = tree w2"
proof (cases "loadAsync_result h zipData")
  case (Inl thrown)
  then show ?thesis by (simp add: unzip_and_write_tree)
next
  case (Inr files)
  let ?s1 = "\<lparr>env = emit w [LoadAsync zipData], fileCount = 0, folderPathsCreated = {}\<rparr>"
  let ?s2 = "\<lparr>env = emit w2 [LoadAsync zipData], fileCount = 0, folderPathsCreated = {}\<rparr>"
  have c1: "dirs_confirmed ?s1" and c2: "dirs_confirmed ?s2"
    by (simp_all add: dirs_confirmed_def)
  have t: "tree (env ?s2) = tree (env (snd (process_entries h ct ?s1 files)))"
    using assms Inr by (simp add: unzip_and_write_tree)
  have "\<forall>e \<in> set (visited files).
          settled h ct (tree (env (snd (process_entries h ct ?s1 files)))) e"
    using run_settles [OF c1] by blast
  then have "\<forall>e \<in> set (visited files). settled h ct (tree (env ?s2)) e"
    using t by simp
  then have "tree (env (snd (process_entries h ct ?s2 files))) = tree (env ?s2)"
    using run_noop [OF c2] by blast
  then show ?thesis
    using Inr by (simp add: unzip_and_write_tree)
qed

lemma ensure_result_path:
  "fst (ensureFolderExists h w p) = Some x \<Longrightarrow>
     x = (if p = ''/'' \<or> p = '''' \<or> strip_slashes p = '''' then ''/'' else strip_slashes p)"
  by (auto simp: ensureFolderExists_def getAbstractFileByPath_def createFolder_def Let_def
           split: option.splits node.splits folder_outcome.splits prod.splits if_splits)

text \<open>
  Running the command again with the same URL, settings and host, on any vault whose tree
  is the one the first run left, changes nothing.
\<close>

lemma downloadAndUnzip_again:
  assumes "tree w2 = tree (downloadAndUnzip h targetFolderPath w url)"
  shows "tree (downloadAndUnzip h targetFolderPath w2 url) = tree w2"
proof (cases "\<not> startsWith url ''http://'' \<and> \<not> startsWith url ''https://''")
  case True
  then show ?thesis by (simp add: downloadAndUnzip_def)
next
  case False
  let ?p = targetFolderPath
  obtain r w1 where e1: "ensureFolderExists h w ?p = (r, w1)"
    by (cases "ensureFolderExists h w ?p")
  obtain r2 w3 where e2: "ensureFolderExists h w2 ?p = (r2, w3)"
    by (cases "ensureFolderExists h w2 ?p")
  show ?thesis
  proof (cases r)
    case None
    have dead: "dir_dead h (tree w1) ?p"
      using ensure_dead(1) e1 None by blast
    have t2: "tree w2 = tree w1"
      using assms False e1 None by (simp add: downloadAndUnzip_def)
    have "tree (snd (ensureFolderExists h w2 ?p)) = tree w2"
      using dead t2 ensure_inert [of w2 ?p h] by simp
    then have t3: "tree w3 = tree w2" using e2 by simp
    have "\<not> is_directory (tree w3) ?p"
      using dead t2 t3 by (simp add: dir_dead_def)
    then have "r2 = None"
      using ensureD(2) [OF e2] by simp
    then show ?thesis
      using False e2 t3 by (simp add: downloadAndUnzip_def)
  next
    case (Some tp)
    let ?ct = "if tp = ''/'' then '''' else tp"
    let ?url = "dropbox_fix url"
    have d1: "is_directory (tree w1) ?p"
      using ensureD(2) [OF e1] Some by simp
    have g: "grows h (tree w1) (tree w2)"
    proof (cases "requestUrl_result h ?url")
      case (Inl thrown)
      then have "tree w2 = tree w1"
        using assms False e1 Some by (simp add: downloadAndUnzip_def Let_def)
      then show ?thesis by (simp add: grows_refl)
    next
      case (Inr zipData)
      then show ?thesis
        using assms False e1 Some
          unzip_and_write_grows
            [of h "emit (emit w1 [Notice ''Downloading module...'',
                                 ConsoleLog (''Requesting URL: '' @ ?url), RequestUrl ?url])
                     [Notice ''Download complete. Unzipping...'',
                      ConsoleLog (''Downloaded '' @ digits_of (length zipData) @ '' bytes.'')]"
                tp ?ct zipData]
        by (simp add: downloadAndUnzip_def Let_def)
    qed
    have d2: "is_directory (tree w2) ?p"
      using is_directory_grows [OF g d1] .
    have "tree (snd (ensureFolderExists h w2 ?p)) = tree w2"
      using d2 ensure_inert [of w2 ?p h] by simp
    then have t3: "tree w3 = tree w2" using e2 by simp
    have "r2 \<noteq> None"
      using ensureD(2) [OF e2] d2 t3 by simp
    then obtain tp2 where r2: "r2 = Some tp2" by auto
    have same: "tp2 = tp"
      using ensure_result_path [of h w ?p tp] ensure_result_path [of h w2 ?p tp2] e1 e2 Some r2
      by simp
    show ?thesis
    proof (cases "requestUrl_result h ?url")
      case (Inl thrown)
      then show ?thesis
        using False e2 r2 t3 by (simp add: downloadAndUnzip_def Let_def)
    next
      case (Inr zipData)
      let ?a = "emit (emit w1 [Notice ''Downloading module...'',
                              ConsoleLog (''Requesting URL: '' @ ?url), RequestUrl ?url])
                  [Notice ''Download complete. Unzipping...'',
                   ConsoleLog (''Downloaded '' @ digits_of (length zipData) @ '' bytes.'')]"
      let ?b = "emit (emit w3 [Notice ''Downloading module...'',
                              ConsoleLog (''Requesting URL: '' @ ?url), RequestUrl ?url])
                  [Notice ''Download complete. Unzipping...'',
                   ConsoleLog (''Downloaded '' @ digits_of (length zipData) @ '' bytes.'')]"
      have first: "tree w2 = tree (unzip_and_write h ?a tp ?ct zipData)"
        using assms False e1 Some Inr by (simp add: downloadAndUnzip_def Let_def)
      have "tree ?b = tree (unzip_and_write h ?a tp ?ct zipData)"
        using first t3 by simp
      then have "tree (unzip_and_write h ?b tp ?ct zipData) = tree ?b"
        by (rule unzip_and_write_again)
      then show ?thesis
        using False e2 r2 same Inr t3 by (simp add: downloadAndUnzip_def Let_def)
    qed
  qed
qed

text \<open>
  No run and no command ever changes the bytes of a file that is in the vault, whatever
  the archive holds and however the host fails.
\<close>

lemma run_keeps_files:
  "tree (env st) p = Some (TFile b) \<Longrightarrow>
     tree (env (snd (process_entries h ct st files))) p = Some (TFile b)"
  using grows_keeps [OF process_entries_grows] by blast

lemma downloadAndUnzip_grows:
  "grows h (tree w) (tree (downloadAndUnzip h targetFolderPath w url))"
proof (cases "\<not> startsWith url ''http://'' \<and> \<not> startsWith url ''https://''")
  case True
  then show ?thesis by (simp add: downloadAndUnzip_def grows_refl)
next
  case False
  obtain r w1 where e1: "ensureFolderExists h w targetFolderPath = (r, w1)"
    by (cases "ensureFolderExists h w targetFolderPath")
  have g1: "grows h (tree w) (tree w1)"
    using ensureD(3) [OF e1] .
  show ?thesis
  proof (cases r)
    case None
    then show ?thesis
      using False e1 g1 by (auto simp: downloadAndUnzip_def)
  next
    case (Some tp)
    show ?thesis
    proof (cases "requestUrl_result h (dropbox_fix url)")
      case (Inl thrown)
      then show ?thesis
        using False e1 Some g1 by (auto simp: downloadAndUnzip_def Let_def)
    next
      case (Inr zipData)
      let ?a = "emit (emit w1 [Notice ''Downloading module...'',
                              ConsoleLog (''Requesting URL: '' @ dropbox_fix url),
                              RequestUrl (dropbox_fix url)])
                  [Notice ''Download complete. Unzipping...'',
                   ConsoleLog (''Downloaded '' @ digits_of (length zipData) @ '' bytes.'')]"
      have "grows h (tree ?a)
              (tree (unzip_and_write h ?a tp (if tp = ''/'' then '''' else tp) zipData))"
        by (rule unzip_and_write_grows)
      then have "grows h (tree w)
              (tree (unzip_and_write h ?a tp (if tp = ''/'' then '''' else tp) zipData))"
        using grows_trans [OF g1] by simp
      then show ?thesis
        using False e1 Some Inr by (auto simp: downloadAndUnzip_def Let_def)
    qed
  qed
qed

lemma downloadAndUnzip_keeps_files:
  "tree w p = Some (TFile b) \<Longrightarrow>
     tree (downloadAndUnzip h targetFolderPath w url) p = Some (TFile b)"
  using grows_keeps [OF downloadAndUnzip_grows] by blast

end
